(* ===== verification/Prelude.thy ===== *)
theory Prelude
  imports Main "HOL-Library.Word" "HOL-Library.Sublist"
begin

section \<open>Prelude: shared types, results, lists and instants\<close>

text \<open>
  What every component theory shares:
  \<^item> names for the Go types the sources use: bytes, 32-bit and 64-bit words, instants
    (\<^verbatim>\<open>time.Time\<close>) and durations;
  \<^item> results: a Go function returning \<^verbatim>\<open>(T, error)\<close> is a value of \<open>'e + 'a\<close>, \<open>Inl\<close> the error;
  \<^item> the list facts the retention, compaction and restore loops use;
  \<^item> the collections \<open>level_simps\<close>, \<open>wal_simps\<close> and \<open>client_simps\<close> that the component theories
    fill and their proofs draw on.

  An instant is the number of nanoseconds since Go's zero time (January 1, year 1, UTC), so
  \<^verbatim>\<open>t.IsZero()\<close> is \<open>t = 0\<close>, \<^verbatim>\<open>t.Before(u)\<close> is \<open>t < u\<close>, \<^verbatim>\<open>t.After(u)\<close> is \<open>t > u\<close> and
  \<^verbatim>\<open>t.Add(d)\<close> is \<open>t + d\<close>. The wall clock is an argument \<open>now\<close> of every operation that calls
  \<^verbatim>\<open>time.Now()\<close>.

  A transaction id (\<^verbatim>\<open>ltx.TXID\<close>, an unsigned 64-bit counter that starts at 1 and grows by one
  per transaction) is a \<open>nat\<close>; where the code narrows one (the peer wire), the narrowing is
  written out.
\<close>

type_synonym byte = "8 word"
type_synonym u32 = "32 word"
type_synonym u64 = "64 word"
type_synonym instant = int
type_synonym duration = int
type_synonym txid = nat

named_theorems level_simps
named_theorems wal_simps
named_theorems client_simps

subsection \<open>Durations\<close>

abbreviation (input) millisecond :: duration where "millisecond \<equiv> 1000000"
abbreviation (input) second :: duration where "second \<equiv> 1000000000"
abbreviation (input) minute :: duration where "minute \<equiv> 60 * second"
abbreviation (input) hour :: duration where "hour \<equiv> 60 * minute"

subsection \<open>Results\<close>

fun is_ok :: "'e + 'a \<Rightarrow> bool" where
  "is_ok (Inl e) = False"
| "is_ok (Inr a) = True"

text \<open>\<^verbatim>\<open>time.Time.Truncate(d)\<close>: round down to a multiple of \<open>d\<close> since the zero time; unchanged
  when \<open>d \<le> 0\<close>.\<close>

definition time_Truncate :: "instant \<Rightarrow> duration \<Rightarrow> instant" where
  "time_Truncate t d = (if d \<le> 0 then t else t - t mod d)"

lemma all_less_Suc_split: "(\<forall>k<Suc n. P k) \<longleftrightarrow> P 0 \<and> (\<forall>k<n. P (Suc k))"
  by (auto simp: less_Suc_eq_0_disj)

lemma is_ok_iff: "is_ok r \<longleftrightarrow> (\<exists>a. r = Inr a)"
  by (cases r) auto

lemma time_Truncate_le: "time_Truncate t d \<le> t"
  by (simp add: time_Truncate_def)

lemma time_Truncate_gt: "0 < d \<Longrightarrow> t < time_Truncate t d + d"
  by (simp add: time_Truncate_def)

lemma time_Truncate_dvd: "0 < d \<Longrightarrow> d dvd time_Truncate t d"
  by (simp add: time_Truncate_def)

lemma time_Truncate_greatest:
  assumes "0 < d" and "d dvd u" and "u \<le> t"
  shows "u \<le> time_Truncate t d"
proof -
  from assms(2) obtain k where k: "u = d * k" by (auto elim: dvdE)
  have t: "time_Truncate t d = d * (t div d)"
    using assms(1) by (simp add: time_Truncate_def minus_mod_eq_mult_div)
  have "k \<le> t div d"
    using zdiv_mono1 [OF assms(3,1)] assms(1) k by simp
  with assms(1) show ?thesis by (simp add: k t)
qed

end
