(* ===== verification/Bytes.thy ===== *)
theory Bytes
  imports Prelude
begin

unbundle bit_operations_syntax

section \<open>Byte order and fixed-width integers\<close>

text \<open>
  The parts of Go's \<^verbatim>\<open>encoding/binary\<close> that the WAL reader and the peer wire use: reading and
  writing 32-bit and 64-bit unsigned integers in either byte order. \<^verbatim>\<open>Uint32\<close> panics on a slice
  shorter than four bytes; every call site of the model checks the length first, and the model's
  function reads the bytes that are there.
\<close>

datatype ByteOrder = LittleEndian | BigEndian

definition be_join :: "byte list \<Rightarrow> 'a::len word" where
  "be_join bs = foldl (\<lambda>acc b. push_bit 8 acc OR ucast b) 0 bs"

definition Uint32 :: "ByteOrder \<Rightarrow> byte list \<Rightarrow> u32" where
  "Uint32 bo b = (case bo of BigEndian \<Rightarrow> be_join (take 4 b) | LittleEndian \<Rightarrow> be_join (rev (take 4 b)))"

definition Uint64 :: "ByteOrder \<Rightarrow> byte list \<Rightarrow> u64" where
  "Uint64 bo b = (case bo of BigEndian \<Rightarrow> be_join (take 8 b) | LittleEndian \<Rightarrow> be_join (rev (take 8 b)))"

definition be_bytes :: "nat \<Rightarrow> 'a::len word \<Rightarrow> byte list" where
  "be_bytes n v = map (\<lambda>i. ucast (drop_bit (8 * (n - 1 - i)) v)) [0..<n]"

definition PutUint32 :: "ByteOrder \<Rightarrow> u32 \<Rightarrow> byte list" where
  "PutUint32 bo v = (case bo of BigEndian \<Rightarrow> be_bytes 4 v | LittleEndian \<Rightarrow> rev (be_bytes 4 v))"

definition PutUint64 :: "ByteOrder \<Rightarrow> u64 \<Rightarrow> byte list" where
  "PutUint64 bo v = (case bo of BigEndian \<Rightarrow> be_bytes 8 v | LittleEndian \<Rightarrow> rev (be_bytes 8 v))"

lemma length_be_bytes [simp]: "length (be_bytes n v) = n"
  by (simp add: be_bytes_def)

lemma length_PutUint32 [simp]: "length (PutUint32 bo v) = 4"
  by (simp add: PutUint32_def split: ByteOrder.split)

lemma length_PutUint64 [simp]: "length (PutUint64 bo v) = 8"
  by (simp add: PutUint64_def split: ByteOrder.split)

lemma be_join_snoc: "be_join (bs @ [b]) = push_bit 8 (be_join bs) OR ucast b"
  by (simp add: be_join_def)

lemma be_bytes_Suc: "be_bytes (Suc n) v = be_bytes n (drop_bit 8 v) @ [ucast v]"
  by (auto simp: be_bytes_def drop_bit_drop_bit add.commute intro!: map_cong arg_cong [where f = ucast] arg_cong2 [where f = drop_bit])

lemma be_join_be_bytes: "be_join (be_bytes n v) = take_bit (8 * n) (v :: 'a::len word)"
proof (induction n arbitrary: v)
  case 0
  then show ?case by (simp add: be_join_def be_bytes_def)
next
  case (Suc n)
  have "push_bit 8 (take_bit (8 * n) (drop_bit 8 v)) OR ucast (ucast v :: byte) = take_bit (8 * Suc n) v"
    by (rule bit_word_eqI) (auto simp: bit_simps not_le)
  with Suc show ?case by (simp add: be_bytes_Suc be_join_snoc)
qed

lemma Uint32_PutUint32 [simp]: "Uint32 bo (PutUint32 bo v @ rest) = v"
  by (simp add: Uint32_def PutUint32_def be_join_be_bytes take_bit_word_eq_self split: ByteOrder.split)

lemma Uint64_PutUint64 [simp]: "Uint64 bo (PutUint64 bo v @ rest) = v"
  by (simp add: Uint64_def PutUint64_def be_join_be_bytes take_bit_word_eq_self split: ByteOrder.split)

lemma Uint32_PutUint32_Nil [simp]: "Uint32 bo (PutUint32 bo v) = v"
  using Uint32_PutUint32 [of bo v "[]"] by simp

lemma Uint64_PutUint64_Nil [simp]: "Uint64 bo (PutUint64 bo v) = v"
  using Uint64_PutUint64 [of bo v "[]"] by simp

end
