(* ===== verification/WalReader.thy ===== *)
theory WalReader
  imports Bytes "HOL-Library.AList"
begin

section \<open>The SQLite WAL reader\<close>

text \<open>
  \<^verbatim>\<open>src/wal_reader.go\<close> and the checksum of \<^verbatim>\<open>src/replicate.go\<close>: the running WAL checksum, the
  reader with its header and frame parsing, the page map of the committed frames and the scan of
  frame salts.

  An \<^verbatim>\<open>io.ReaderAt\<close> is a record of two functions: \<open>ReadAt off n\<close> gives the bytes read and the error,
  \<open>SizeOf\<close> is what \<^verbatim>\<open>Stat\<close> or \<^verbatim>\<open>Size\<close> reports (\<open>None\<close> for a reader that has neither). Offsets are
  natural numbers; the frame size is computed in 32 bits, as the code does, so it wraps for page
  sizes within 24 of \<open>2 ^ 32\<close>. A failed assertion and an integer division by zero are the error
  \<open>Panic\<close>. A cancelled context is a predicate on the iteration number.
\<close>

subsection \<open>Model\<close>

datatype rd_err = RdEOF | RdErr nat

record ReaderAt =
  ReadAt :: "nat \<Rightarrow> nat \<Rightarrow> byte list \<times> rd_err option"
  SizeOf :: "(nat + nat) option"

datatype wal_err =
    EOF
  | ErrIO rd_err
  | ErrWALSize nat
  | ErrMagic u32
  | ErrVersion u32
  | ErrBufferSize nat u32
  | ErrOffsetTooSmall int
  | ErrReadHeader wal_err
  | ErrUnaligned int u32
  | PrevFrameMismatchError wal_err
  | Canceled
  | Panic

definition WALHeaderSize :: nat where "WALHeaderSize = 32"
definition WALFrameHeaderSize :: nat where "WALFrameHeaderSize = 24"

record WALReader =
  wr_r :: ReaderAt
  wr_size :: nat
  wr_frameN :: nat
  wr_bo :: ByteOrder
  wr_pageSize :: u32
  wr_seq :: u32
  wr_salt1 :: u32
  wr_salt2 :: u32
  wr_chksum1 :: u32
  wr_chksum2 :: u32

text \<open>The loop of \<^verbatim>\<open>WALChecksum\<close> over 8-byte units.\<close>

fun checksum_units :: "ByteOrder \<Rightarrow> u32 \<times> u32 \<Rightarrow> byte list \<Rightarrow> u32 \<times> u32" where
  "checksum_units bo (s0, s1) b =
     (if b = [] then (s0, s1)
      else let s0' = s0 + (Uint32 bo b + s1);
               s1' = s1 + (Uint32 bo (drop 4 b) + s0')
           in checksum_units bo (s0', s1') (drop 8 b))"

declare checksum_units.simps [simp del]

text \<open>\<open>None\<close> is the failed assertion on a misaligned slice.\<close>

definition WALChecksum :: "ByteOrder \<Rightarrow> u32 \<Rightarrow> u32 \<Rightarrow> byte list \<Rightarrow> (u32 \<times> u32) option" where
  "WALChecksum bo s0 s1 b =
     (if length b mod 8 \<noteq> 0 then None else Some (checksum_units bo (s0, s1) b))"

definition Checksum :: "ByteOrder \<Rightarrow> u32 \<Rightarrow> u32 \<Rightarrow> byte list \<Rightarrow> (u32 \<times> u32) option" where
  "Checksum bo s0 s1 b =
     (if length b mod 8 \<noteq> 0 then None else Some (checksum_units bo (s0, s1) b))"

definition wal_Offset :: "WALReader \<Rightarrow> nat" where
  "wal_Offset r =
     (if wr_frameN r = 0 then 0
      else WALHeaderSize + (wr_frameN r - 1) * (WALFrameHeaderSize + unat (wr_pageSize r)))"

definition beyondBound :: "WALReader \<Rightarrow> nat \<Rightarrow> nat \<Rightarrow> bool" where
  "beyondBound r off n \<longleftrightarrow> wr_size r > 0 \<and> off + n > wr_size r"

definition readerSize :: "ReaderAt \<Rightarrow> nat + nat" where
  "readerSize rd = (case SizeOf rd of None \<Rightarrow> Inr 0 | Some s \<Rightarrow> s)"

definition wal_magic :: "u32 \<Rightarrow> ByteOrder option" where
  "wal_magic m = (if m = 0x377f0682 then Some LittleEndian
                  else if m = 0x377f0683 then Some BigEndian else None)"

definition readHeader :: "WALReader \<Rightarrow> wal_err + WALReader" where
  "readHeader r =
     (case readerSize (wr_r r) of
        Inl e \<Rightarrow> Inl (ErrWALSize e)
      | Inr sz \<Rightarrow>
          let r = r\<lparr>wr_size := sz\<rparr>;
              (hdr, err) = ReadAt (wr_r r) 0 WALHeaderSize
          in if length hdr < WALHeaderSize then Inl EOF
             else case err of Some e \<Rightarrow> Inl (ErrIO e) | None \<Rightarrow>
               (case wal_magic (Uint32 BigEndian hdr) of
                  None \<Rightarrow> Inl (ErrMagic (Uint32 BigEndian hdr))
                | Some bo \<Rightarrow>
                    let c1 = Uint32 BigEndian (drop 24 hdr);
                        c2 = Uint32 BigEndian (drop 28 hdr)
                    in if WALChecksum bo 0 0 (take 24 hdr) \<noteq> Some (c1, c2) then Inl EOF
                       else if Uint32 BigEndian (drop 4 hdr) \<noteq> 3007000
                       then Inl (ErrVersion (Uint32 BigEndian (drop 4 hdr)))
                       else Inr (r\<lparr>wr_bo := bo,
                                   wr_pageSize := Uint32 BigEndian (drop 8 hdr),
                                   wr_seq := Uint32 BigEndian (drop 12 hdr),
                                   wr_salt1 := Uint32 BigEndian (drop 16 hdr),
                                   wr_salt2 := Uint32 BigEndian (drop 20 hdr),
                                   wr_chksum1 := c1, wr_chksum2 := c2\<rparr>)))"

definition frame_size32 :: "WALReader \<Rightarrow> u32" where
  "frame_size32 r = wr_pageSize r + of_nat WALFrameHeaderSize"

definition frame_offset :: "WALReader \<Rightarrow> nat" where
  "frame_offset r = WALHeaderSize + wr_frameN r * unat (frame_size32 r)"

text \<open>\<^verbatim>\<open>readFrame\<close> on a buffer of \<open>buflen\<close> bytes: the page number, the commit field and the page data,
  and the reader after the call. A checksum mismatch leaves the running checksum advanced.\<close>

definition readFrame :: "WALReader \<Rightarrow> nat \<Rightarrow> bool \<Rightarrow> (wal_err + u32 \<times> u32 \<times> byte list) \<times> WALReader" where
  "readFrame r buflen verifyChecksum =
     (if buflen \<noteq> unat (wr_pageSize r) then (Inl (ErrBufferSize buflen (wr_pageSize r)), r)
      else
        let frameSize = frame_size32 r; offset = frame_offset r
        in if beyondBound r offset (unat frameSize) then (Inl EOF, r)
           else let (hdr, err) = ReadAt (wr_r r) offset WALFrameHeaderSize
           in if length hdr \<noteq> WALFrameHeaderSize then (Inl EOF, r)
              else case err of Some e \<Rightarrow> (Inl (ErrIO e), r) | None \<Rightarrow>
              let (data, err') = ReadAt (wr_r r) (offset + WALFrameHeaderSize) buflen
              in if length data \<noteq> buflen then (Inl EOF, r)
                 else case err' of Some e \<Rightarrow> (Inl (ErrIO e), r) | None \<Rightarrow>
                 if wr_salt1 r \<noteq> Uint32 BigEndian (drop 8 hdr) \<or> wr_salt2 r \<noteq> Uint32 BigEndian (drop 12 hdr)
                 then (Inl EOF, r)
                 else
                   let c1 = Uint32 BigEndian (drop 16 hdr);
                       c2 = Uint32 BigEndian (drop 20 hdr);
                       done = (\<lambda>r. (Inr (Uint32 BigEndian hdr, Uint32 BigEndian (drop 4 hdr), data),
                                    r\<lparr>wr_frameN := wr_frameN r + 1\<rparr>))
                   in if verifyChecksum then
                        case WALChecksum (wr_bo r) (wr_chksum1 r) (wr_chksum2 r) (take 8 hdr) of
                          None \<Rightarrow> (Inl Panic, r)
                        | Some (h1, h2) \<Rightarrow>
                            (case WALChecksum (wr_bo r) h1 h2 data of
                               None \<Rightarrow> (Inl Panic, r)
                             | Some (d1, d2) \<Rightarrow>
                                 let r' = r\<lparr>wr_chksum1 := d1, wr_chksum2 := d2\<rparr>
                                 in if d1 \<noteq> c1 \<or> d2 \<noteq> c2 then (Inl EOF, r') else done r')
                      else done (r\<lparr>wr_chksum1 := c1, wr_chksum2 := c2\<rparr>))"

definition new_reader :: "ReaderAt \<Rightarrow> WALReader" where
  "new_reader rd = \<lparr>wr_r = rd, wr_size = 0, wr_frameN = 0, wr_bo = BigEndian, wr_pageSize = 0, wr_seq = 0,
     wr_salt1 = 0, wr_salt2 = 0, wr_chksum1 = 0, wr_chksum2 = 0\<rparr>"

definition NewWALReader :: "ReaderAt \<Rightarrow> wal_err + WALReader" where
  "NewWALReader rd = readHeader (new_reader rd)"

definition NewWALReaderWithOffset :: "ReaderAt \<Rightarrow> int \<Rightarrow> u32 \<Rightarrow> u32 \<Rightarrow> wal_err + WALReader" where
  "NewWALReaderWithOffset rd offset salt1 salt2 =
     (if offset \<le> int WALHeaderSize then Inl (ErrOffsetTooSmall offset)
      else case readHeader (new_reader rd) of
        Inl e \<Rightarrow> Inl (ErrReadHeader e)
      | Inr r \<Rightarrow>
          let r = r\<lparr>wr_salt1 := salt1, wr_salt2 := salt2\<rparr>;
              frameSize = unat (frame_size32 r);
              rel = nat (offset - int WALHeaderSize)
          in if frameSize = 0 then Inl Panic
             else if rel mod frameSize \<noteq> 0 then Inl (ErrUnaligned offset (wr_pageSize r))
             else (case readFrame (r\<lparr>wr_frameN := rel div frameSize - 1\<rparr>) (unat (wr_pageSize r)) False of
                     (Inl e, _) \<Rightarrow> Inl (PrevFrameMismatchError e)
                   | (Inr _, r') \<Rightarrow> Inr r'))"

definition ReadFrame :: "WALReader \<Rightarrow> nat \<Rightarrow> (wal_err + u32 \<times> u32 \<times> byte list) \<times> WALReader" where
  "ReadFrame r buflen = readFrame r buflen True"

type_synonym page_map = "(u32 \<times> nat) list"

text \<open>Transfer of the transaction's offsets into the full map, entry by entry.\<close>

definition transfer :: "page_map \<Rightarrow> page_map \<Rightarrow> page_map" where
  "transfer txMap m = foldr (\<lambda>(pgno, offset) m. AList.update pgno offset m) txMap m"

text \<open>One iteration's effect on \<open>(m, txMap, commit)\<close> for a frame read at \<open>offset\<close>.\<close>

fun page_step :: "u32 \<times> u32 \<times> nat \<Rightarrow> page_map \<times> page_map \<times> u32 \<Rightarrow> page_map \<times> page_map \<times> u32" where
  "page_step (pgno, fcommit, offset) (m, txMap, commit) =
     (let txMap' = AList.update pgno offset txMap
      in if fcommit \<noteq> 0 then (transfer txMap' m, [], fcommit) else (m, txMap', commit))"

partial_function (option) page_loop ::
  "(nat \<Rightarrow> bool) \<Rightarrow> nat \<Rightarrow> WALReader \<Rightarrow> page_map \<times> page_map \<times> u32 \<Rightarrow>
   (wal_err + page_map \<times> page_map \<times> u32 \<times> WALReader) option" where
  "page_loop ctx k r st =
     (if ctx k then Some (Inl Canceled)
      else case ReadFrame r (unat (wr_pageSize r)) of
        (Inl e, r') \<Rightarrow> Some (if e = EOF then Inr (fst st, fst (snd st), snd (snd st), r') else Inl e)
      | (Inr (pgno, fcommit, data), r') \<Rightarrow>
          page_loop ctx (Suc k) r' (page_step (pgno, fcommit, wal_Offset r') st))"

definition drop_beyond :: "u32 \<Rightarrow> page_map \<Rightarrow> page_map" where
  "drop_beyond commit m = filter (\<lambda>(pgno, _). \<not> pgno > commit) m"

definition max_offset :: "page_map \<Rightarrow> nat" where
  "max_offset m = fold (\<lambda>(_, offset) end. if end = 0 \<or> offset > end then offset else end) m 0"

definition PageMap :: "(nat \<Rightarrow> bool) \<Rightarrow> WALReader \<Rightarrow> (wal_err + page_map \<times> nat \<times> u32) option" where
  "PageMap ctx r =
     (case page_loop ctx 0 r ([], [], 0) of
        None \<Rightarrow> None
      | Some (Inl e) \<Rightarrow> Some (Inl e)
      | Some (Inr (m, _, commit, r')) \<Rightarrow>
          Some (Inr (let m = drop_beyond commit m
                     in if length m = 0 then (m, 0, 0)
                        else (m, max_offset m + (WALFrameHeaderSize + unat (wr_pageSize r')), commit))))"

partial_function (option) salts_loop ::
  "WALReader \<Rightarrow> u32 \<times> u32 \<Rightarrow> nat \<Rightarrow> (u32 \<times> u32) list \<Rightarrow> (wal_err + (u32 \<times> u32) list) option" where
  "salts_loop r until offset m =
     (if beyondBound r offset (unat (frame_size32 r)) then Some (Inr m)
      else case ReadAt (wr_r r) offset WALFrameHeaderSize of (hdr, err) \<Rightarrow>
        if length hdr \<noteq> WALFrameHeaderSize then Some (Inr m)
        else case err of Some e \<Rightarrow> Some (Inl (ErrIO e))
        | None \<Rightarrow>
            if (Uint32 BigEndian (drop 8 hdr), Uint32 BigEndian (drop 12 hdr)) = until
            then Some (Inr (List.insert until m))
            else salts_loop r until (offset + unat (frame_size32 r))
                   (List.insert (Uint32 BigEndian (drop 8 hdr), Uint32 BigEndian (drop 12 hdr)) m))"

definition FrameSaltsUntil :: "WALReader \<Rightarrow> u32 \<times> u32 \<Rightarrow> (wal_err + (u32 \<times> u32) list) option" where
  "FrameSaltsUntil r until = salts_loop r until WALHeaderSize []"

subsection \<open>Reference definitions\<close>

text \<open>
  What the properties compare the reader with:
  \<^item> \<open>reads r fs r'\<close>: calling \<^verbatim>\<open>ReadFrame\<close> from \<open>r\<close> on returns the frames \<open>fs\<close> and then the end of the WAL;
  \<^item> \<open>committed fs\<close>: the frames up to the last commit record; \<open>latest fs p\<close>: the offset of the last frame
    for page \<open>p\<close>; \<open>final_commit fs\<close>: the database size of the last commit record;
  \<^item> \<open>wal_image\<close>: the bytes SQLite writes for a header and a list of frames, with the cumulative
    checksums of the WAL format;
  \<^item> \<open>agree_upto n rd rd'\<close>: two readers that return the same bytes below offset \<open>n\<close>.
\<close>

type_synonym frame = "u32 \<times> u32 \<times> nat \<times> byte list"

abbreviation frame_key :: "frame \<Rightarrow> u32 \<times> u32 \<times> nat" where
  "frame_key f \<equiv> (case f of (p, c, off, d) \<Rightarrow> (p, c, off))"

inductive reads :: "WALReader \<Rightarrow> frame list \<Rightarrow> WALReader \<Rightarrow> bool" where
  reads_stop: "ReadFrame r (unat (wr_pageSize r)) = (Inl EOF, r') \<Longrightarrow> reads r [] r'"
| reads_frame: "ReadFrame r (unat (wr_pageSize r)) = (Inr (p, c, d), r') \<Longrightarrow> reads r' fs r'' \<Longrightarrow>
    reads r ((p, c, wal_Offset r', d) # fs) r''"

definition committed :: "(u32 \<times> u32 \<times> nat) list \<Rightarrow> (u32 \<times> u32 \<times> nat) list" where
  "committed fs = rev (dropWhile (\<lambda>(_, c, _). c = 0) (rev fs))"

definition uncommitted :: "(u32 \<times> u32 \<times> nat) list \<Rightarrow> (u32 \<times> u32 \<times> nat) list" where
  "uncommitted fs = rev (takeWhile (\<lambda>(_, c, _). c = 0) (rev fs))"

definition latest :: "(u32 \<times> u32 \<times> nat) list \<Rightarrow> u32 \<rightharpoonup> nat" where
  "latest fs = map_of (rev (map (\<lambda>(p, _, off). (p, off)) fs))"

definition final_commit :: "(u32 \<times> u32 \<times> nat) list \<Rightarrow> u32" where
  "final_commit fs = (if committed fs = [] then 0 else fst (snd (last (committed fs))))"

definition agree_upto :: "nat \<Rightarrow> ReaderAt \<Rightarrow> ReaderAt \<Rightarrow> bool" where
  "agree_upto n rd rd' \<longleftrightarrow> (\<forall>off k. off + k \<le> n \<longrightarrow> ReadAt rd off k = ReadAt rd' off k)"

definition bytes_reader :: "byte list \<Rightarrow> ReaderAt" where
  "bytes_reader bs = \<lparr>ReadAt = (\<lambda>off n. (take n (drop off bs), if off + n \<le> length bs then None else Some RdEOF)),
                      SizeOf = Some (Inr (length bs))\<rparr>"

definition magic_of :: "ByteOrder \<Rightarrow> u32" where
  "magic_of bo = (case bo of LittleEndian \<Rightarrow> 0x377f0682 | BigEndian \<Rightarrow> 0x377f0683)"

definition wal_header_fields :: "ByteOrder \<Rightarrow> u32 \<Rightarrow> u32 \<Rightarrow> u32 \<Rightarrow> u32 \<Rightarrow> byte list" where
  "wal_header_fields bo ps sq s1 s2 =
     PutUint32 BigEndian (magic_of bo) @ PutUint32 BigEndian 3007000 @ PutUint32 BigEndian ps @
     PutUint32 BigEndian sq @ PutUint32 BigEndian s1 @ PutUint32 BigEndian s2"

definition put_pair :: "u32 \<times> u32 \<Rightarrow> byte list" where
  "put_pair c = PutUint32 BigEndian (fst c) @ PutUint32 BigEndian (snd c)"

definition wal_header :: "ByteOrder \<Rightarrow> u32 \<Rightarrow> u32 \<Rightarrow> u32 \<Rightarrow> u32 \<Rightarrow> byte list" where
  "wal_header bo ps sq s1 s2 =
     wal_header_fields bo ps sq s1 s2 @ put_pair (checksum_units bo (0, 0) (wal_header_fields bo ps sq s1 s2))"

fun wal_frames :: "ByteOrder \<Rightarrow> u32 \<Rightarrow> u32 \<Rightarrow> u32 \<times> u32 \<Rightarrow> (u32 \<times> u32 \<times> byte list) list \<Rightarrow> byte list" where
  "wal_frames bo s1 s2 c [] = []"
| "wal_frames bo s1 s2 c ((pgno, fcommit, d) # fs) =
     (let c' = checksum_units bo (checksum_units bo c (put_pair (pgno, fcommit))) d
      in put_pair (pgno, fcommit) @ put_pair (s1, s2) @ put_pair c' @ d @ wal_frames bo s1 s2 c' fs)"

definition wal_image :: "ByteOrder \<Rightarrow> u32 \<Rightarrow> u32 \<Rightarrow> u32 \<Rightarrow> u32 \<Rightarrow> (u32 \<times> u32 \<times> byte list) list \<Rightarrow> byte list" where
  "wal_image bo ps sq s1 s2 fs =
     wal_header bo ps sq s1 s2 @
     wal_frames bo s1 s2 (checksum_units bo (0, 0) (wal_header_fields bo ps sq s1 s2)) fs"

fun place_frames :: "nat \<Rightarrow> nat \<Rightarrow> (u32 \<times> u32 \<times> byte list) list \<Rightarrow> frame list" where
  "place_frames off sz [] = []"
| "place_frames off sz ((p, c, d) # fs) = (p, c, off, d) # place_frames (off + sz) sz fs"

fun frame_chain :: "ByteOrder \<Rightarrow> u32 \<times> u32 \<Rightarrow> (u32 \<times> u32 \<times> byte list) list \<Rightarrow> u32 \<times> u32" where
  "frame_chain bo c [] = c"
| "frame_chain bo c ((pgno, fcommit, d) # fs) =
     frame_chain bo (checksum_units bo (checksum_units bo c (put_pair (pgno, fcommit))) d) fs"

subsection \<open>Checksums and single frames\<close>

lemma Uint32_append: "4 \<le> length a \<Longrightarrow> Uint32 bo (a @ b) = Uint32 bo a"
  by (simp add: Uint32_def split: ByteOrder.split)

lemma checksum_units_append:
  "length a mod 8 = 0 \<Longrightarrow> checksum_units bo s (a @ b) = checksum_units bo (checksum_units bo s a) b"
proof (induction bo s a rule: checksum_units.induct)
  case (1 bo s0 s1 a)
  show ?case
  proof (cases "a = []")
    case True
    then show ?thesis by (simp add: checksum_units.simps [of bo s0 s1 "[]"])
  next
    case False
    with "1.prems" have "8 \<le> length a"
      by (metis gr0I length_0_conv mod_less not_less)
    with 1 False show ?thesis
      by (simp add: checksum_units.simps [of bo s0 s1 "a @ b"] checksum_units.simps [of bo s0 s1 a]
          Uint32_append Let_def le_mod_geq)
  qed
qed

lemma unat_frame_size32: "unat (wr_pageSize r) + 24 < 2 ^ 32 \<Longrightarrow> unat (frame_size32 r) = unat (wr_pageSize r) + 24"
  by (simp add: frame_size32_def WALFrameHeaderSize_def unat_word_ariths)

lemma readFrame_frame:
  assumes "readFrame r n v = (Inr x, r')"
  shows "wr_r r' = wr_r r \<and> wr_size r' = wr_size r \<and> wr_frameN r' = Suc (wr_frameN r) \<and> wr_bo r' = wr_bo r \<and>
         wr_pageSize r' = wr_pageSize r \<and> wr_salt1 r' = wr_salt1 r \<and> wr_salt2 r' = wr_salt2 r \<and>
         \<not> beyondBound r (frame_offset r) (unat (frame_size32 r))"
  using assms
  by (auto simp: readFrame_def Let_def split: if_splits prod.splits option.splits)

lemma readFrame_Inl:
  assumes "readFrame r n v = (Inl e, r')"
  shows "wr_pageSize r' = wr_pageSize r"
  using assms
  by (auto simp: readFrame_def Let_def split: if_splits prod.splits option.splits)

subsection \<open>The page map\<close>

lemma page_loop_reads:
  "reads r fs r' \<Longrightarrow>
   page_loop (\<lambda>_. False) k r st = Some (Inr (let (m, tx, c) = fold page_step (map frame_key fs) st in (m, tx, c, r')))"
proof (induction arbitrary: k st rule: reads.induct)
  case (reads_stop r r')
  then show ?case by (cases st) (simp add: page_loop.simps [of _ k r])
next
  case (reads_frame r p c d r' fs r'')
  then show ?case by (simp add: page_loop.simps [of _ k r])
qed

lemma latest_Nil [simp]: "latest [] = Map.empty"
  by (simp add: latest_def)

lemma committed_uncommitted: "committed fs @ uncommitted fs = fs"
  by (simp add: committed_def uncommitted_def flip: rev_append)

lemma latest_append: "latest (a @ b) = latest a ++ latest b"
  by (simp add: latest_def map_of_append)

lemma latest_snoc: "latest (fs @ [(p, c, off)]) = (latest fs)(p \<mapsto> off)"
  by (auto simp: latest_def)

lemma map_of_transfer: "map_of (transfer tx m) = map_of m ++ map_of tx"
  by (induction tx) (auto simp: transfer_def update_conv' map_add_def fun_eq_iff)

lemma committed_snoc: "committed (fs @ [(p, c, off)]) = (if c = 0 then committed fs else fs @ [(p, c, off)])"
  by (simp add: committed_def)

lemma uncommitted_snoc: "uncommitted (fs @ [(p, c, off)]) = (if c = 0 then uncommitted fs @ [(p, c, off)] else [])"
  by (simp add: uncommitted_def)

lemma fold_page_step:
  assumes "fold page_step fs ([], [], 0) = (m, tx, c)"
  shows "map_of m = latest (committed fs) \<and> map_of tx = latest (uncommitted fs) \<and> c = final_commit fs"
  using assms
proof (induction fs arbitrary: m tx c rule: rev_induct)
  case Nil
  then show ?case by (simp add: committed_def uncommitted_def latest_def final_commit_def)
next
  case (snoc f fs)
  obtain p fc off where f: "f = (p, fc, off)" by (cases f)
  obtain m0 tx0 c0 where st: "fold page_step fs ([], [], 0) = (m0, tx0, c0)"
    by (cases "fold page_step fs ([], [], 0)")
  note IH = snoc.IH [OF st]
  have split: "latest fs = latest (committed fs) ++ latest (uncommitted fs)"
    by (simp add: committed_uncommitted flip: latest_append)
  show ?case
    using snoc.prems IH st
    by (auto simp: f committed_snoc uncommitted_snoc latest_snoc map_of_transfer update_conv' split
        final_commit_def Let_def split: if_splits)
qed

lemma map_of_drop_beyond: "map_of (drop_beyond c m) p = (if p > c then None else map_of m p)"
  by (induction m) (auto simp: drop_beyond_def)

lemma max_offset_Max: "m \<noteq> [] \<Longrightarrow> max_offset m = Max (snd ` set m)"
proof -
  assume ne: "m \<noteq> []"
  have "(\<lambda>(_, offset) e. if e = 0 \<or> offset > e then offset else e) = (\<lambda>(p::u32, off::nat). max off)"
    by (auto simp: fun_eq_iff max_def)
  then have "max_offset m = fold max (map snd m) 0"
    by (simp add: max_offset_def fold_map comp_def case_prod_unfold)
  also have "\<dots> = Max (set (0 # map snd m))"
    by (simp add: Max.set_eq_fold del: list.set set_map)
  also have "\<dots> = Max (snd ` set m)"
    using ne by (simp add: Max_insert)
  finally show ?thesis .
qed

subsection \<open>The loops end\<close>

lemma page_loop_total:
  assumes "0 < wr_size r" and "frame_size32 r \<noteq> 0"
  shows "page_loop ctx k r st \<noteq> None"
  using assms
proof (induction "Suc (wr_size r) - frame_offset r" arbitrary: k r st rule: less_induct)
  case less
  show ?case
  proof (cases "ReadFrame r (unat (wr_pageSize r))")
    case (Pair res r')
    show ?thesis
    proof (cases res)
      case (Inl e)
      with Pair show ?thesis by (subst page_loop.simps) simp
    next
      case (Inr x)
      obtain p c d where x: "x = (p, c, d)" by (cases x)
      from Pair Inr have rf: "readFrame r (unat (wr_pageSize r)) True = (Inr x, r')"
        by (simp add: ReadFrame_def)
      note fr = readFrame_frame [OF rf]
      have pos: "0 < unat (frame_size32 r)" using less.prems by (simp add: unat_gt_0)
      have sz: "frame_size32 r' = frame_size32 r" using fr by (simp add: frame_size32_def)
      have off: "frame_offset r' = frame_offset r + unat (frame_size32 r)"
        using fr sz by (simp add: frame_offset_def)
      have "frame_offset r + unat (frame_size32 r) \<le> wr_size r"
        using fr less.prems by (simp add: beyondBound_def)
      then have "Suc (wr_size r') - frame_offset r' < Suc (wr_size r) - frame_offset r"
        using fr off pos by simp
      moreover have "0 < wr_size r'" "frame_size32 r' \<noteq> 0" using less.prems fr sz by auto
      ultimately have "page_loop ctx (Suc k) r' st' \<noteq> None" for st'
        by (rule less.hyps)
      with Pair Inr x show ?thesis by (subst page_loop.simps) simp
    qed
  qed
qed

lemma salts_loop_total:
  assumes "0 < wr_size r" and "frame_size32 r \<noteq> 0"
  shows "salts_loop r until offset m \<noteq> None"
proof (induction "Suc (wr_size r) - offset" arbitrary: offset m rule: less_induct)
  case less
  have pos: "0 < unat (frame_size32 r)" using assms by (simp add: unat_gt_0)
  show ?case
  proof (cases "beyondBound r offset (unat (frame_size32 r))")
    case True
    then show ?thesis by (subst salts_loop.simps) simp
  next
    case False
    then have "Suc (wr_size r) - (offset + unat (frame_size32 r)) < Suc (wr_size r) - offset"
      using assms pos by (simp add: beyondBound_def)
    from less [OF this] show ?thesis
      by (subst salts_loop.simps) (auto split: prod.splits option.splits)
  qed
qed

lemma salts_loop_diverges:
  assumes zero: "frame_size32 r = 0" and bound: "\<not> beyondBound r off 0"
    and rd: "ReadAt (wr_r r) off 24 = (hdr, None)" "length hdr = 24"
    and ne: "(Uint32 BigEndian (drop 8 hdr), Uint32 BigEndian (drop 12 hdr)) \<noteq> until"
  shows "salts_loop r until off m = None"
proof (rule ccontr)
  assume "salts_loop r until off m \<noteq> None"
  then obtain y where ret: "salts_loop r until off m = Some y" by auto
  have "\<not> (r = r \<and> until = until \<and> off = off)"
  proof (rule salts_loop.raw_induct [where P = "\<lambda>r' u' o' m' y'. \<not> (r' = r \<and> u' = until \<and> o' = off)", OF _ ret], goal_cases)
    case (1 f r' u' o' m' y')
    from "1"(2) assms show ?case
      by (auto simp: WALFrameHeaderSize_def dest: "1"(1) split: if_splits)
  qed
  then show False by simp
qed

subsection \<open>Frames appended behind the bound\<close>

lemma readFrame_agree:
  assumes "agree_upto (wr_size r) (wr_r r) rd'" and "0 < wr_size r" and "unat (wr_pageSize r) + 24 < 2 ^ 32"
  shows "readFrame (r\<lparr>wr_r := rd'\<rparr>) n v = map_prod id (\<lambda>r. r\<lparr>wr_r := rd'\<rparr>) (readFrame r n v)"
proof (cases "n = unat (wr_pageSize r) \<and> \<not> beyondBound r (frame_offset r) (unat (frame_size32 r))")
  case True
  with assms have "frame_offset r + (n + 24) \<le> wr_size r"
    by (simp add: beyondBound_def unat_frame_size32)
  with assms(1) have "ReadAt rd' (frame_offset r) 24 = ReadAt (wr_r r) (frame_offset r) 24"
    "ReadAt rd' (frame_offset r + 24) n = ReadAt (wr_r r) (frame_offset r + 24) n"
    by (auto simp: agree_upto_def)
  with True show ?thesis
    by (auto simp: readFrame_def Let_def WALFrameHeaderSize_def frame_offset_def frame_size32_def beyondBound_def
        split: prod.splits option.splits)
next
  case False
  then show ?thesis
    by (auto simp: readFrame_def Let_def frame_offset_def frame_size32_def beyondBound_def)
qed

lemma page_loop_agree:
  assumes "agree_upto (wr_size r) (wr_r r) rd'" and "0 < wr_size r" and "unat (wr_pageSize r) + 24 < 2 ^ 32"
  shows "page_loop ctx k (r\<lparr>wr_r := rd'\<rparr>) st =
         map_option (map_sum id (\<lambda>(m, tx, c, r). (m, tx, c, r\<lparr>wr_r := rd'\<rparr>))) (page_loop ctx k r st)"
  using assms
proof (induction "Suc (wr_size r) - frame_offset r" arbitrary: k r st rule: less_induct)
  case less
  obtain res r' where rf: "readFrame r (unat (wr_pageSize r)) True = (res, r')" by (cases "readFrame r (unat (wr_pageSize r)) True")
  have rf': "readFrame (r\<lparr>wr_r := rd'\<rparr>) (unat (wr_pageSize r)) True = (res, r'\<lparr>wr_r := rd'\<rparr>)"
    using readFrame_agree [OF less.prems] rf by simp
  show ?case
  proof (cases res)
    case (Inl e)
    with rf rf' show ?thesis
      by (simp add: page_loop.simps [of ctx k r] page_loop.simps [of ctx k "r\<lparr>wr_r := rd'\<rparr>"] ReadFrame_def)
  next
    case (Inr x)
    obtain p c d where x: "x = (p, c, d)" by (cases x)
    note fr = readFrame_frame [OF rf [unfolded Inr]]
    have sz: "frame_size32 r' = frame_size32 r" using fr by (simp add: frame_size32_def)
    have "frame_offset r' = frame_offset r + unat (frame_size32 r)" using fr sz by (simp add: frame_offset_def)
    moreover have "frame_offset r + unat (frame_size32 r) \<le> wr_size r"
      using fr less.prems by (simp add: beyondBound_def)
    ultimately have "Suc (wr_size r') - frame_offset r' < Suc (wr_size r) - frame_offset r"
      using fr less.prems by (simp add: unat_frame_size32)
    then have "page_loop ctx (Suc k) (r'\<lparr>wr_r := rd'\<rparr>) st' =
         map_option (map_sum id (\<lambda>(m, tx, c, r). (m, tx, c, r\<lparr>wr_r := rd'\<rparr>))) (page_loop ctx (Suc k) r' st')" for st'
      by (rule less.hyps) (use less.prems fr in auto)
    with rf rf' Inr x show ?thesis
      by (simp add: page_loop.simps [of ctx k r] page_loop.simps [of ctx k "r\<lparr>wr_r := rd'\<rparr>"] ReadFrame_def wal_Offset_def)
  qed
qed

lemma PageMap_agree:
  assumes "agree_upto (wr_size r) (wr_r r) rd'" and "0 < wr_size r" and "unat (wr_pageSize r) + 24 < 2 ^ 32"
  shows "PageMap ctx (r\<lparr>wr_r := rd'\<rparr>) = PageMap ctx r"
  unfolding PageMap_def page_loop_agree [OF assms]
  by (auto simp: Let_def split: option.splits sum.splits prod.splits)

subsection \<open>Reading a WAL image\<close>

lemma length_put_pair [simp]: "length (put_pair c) = 8"
  by (simp add: put_pair_def)

lemma length_wal_header_fields [simp]: "length (wal_header_fields bo ps sq s1 s2) = 24"
  by (simp add: wal_header_fields_def)

lemma length_wal_header [simp]: "length (wal_header bo ps sq s1 s2) = 32"
  by (simp add: wal_header_def)

lemma wal_magic_of [simp]: "wal_magic (magic_of bo) = Some bo"
  by (cases bo) (simp_all add: wal_magic_def magic_of_def)

lemma Uint32_put_pair [simp]:
  "Uint32 BigEndian (put_pair c @ rest) = fst c"
  "Uint32 BigEndian (drop 4 (put_pair c @ rest)) = snd c"
  by (simp_all add: put_pair_def)

lemma drop_PutUint32_append [simp]: "4 \<le> n \<Longrightarrow> drop n (PutUint32 bo v @ rest) = drop (n - 4) rest"
  by simp

lemma NewWALReader_image:
  "NewWALReader (bytes_reader (wal_image bo ps sq s1 s2 fs)) =
     Inr \<lparr>wr_r = bytes_reader (wal_image bo ps sq s1 s2 fs), wr_size = length (wal_image bo ps sq s1 s2 fs),
          wr_frameN = 0, wr_bo = bo, wr_pageSize = ps, wr_seq = sq, wr_salt1 = s1, wr_salt2 = s2,
          wr_chksum1 = fst (checksum_units bo (0, 0) (wal_header_fields bo ps sq s1 s2)),
          wr_chksum2 = snd (checksum_units bo (0, 0) (wal_header_fields bo ps sq s1 s2))\<rparr>"
proof -
  let ?img = "wal_image bo ps sq s1 s2 fs" and ?hf = "wal_header_fields bo ps sq s1 s2"
  have h: "take 32 ?img = wal_header bo ps sq s1 s2"
    by (simp add: wal_image_def)
  have l: "32 \<le> length ?img" by (simp add: wal_image_def)
  have u: "Uint32 BigEndian (wal_header bo ps sq s1 s2) = magic_of bo"
     "Uint32 BigEndian (drop 4 (wal_header bo ps sq s1 s2)) = 3007000"
     "Uint32 BigEndian (drop 8 (wal_header bo ps sq s1 s2)) = ps"
     "Uint32 BigEndian (drop 12 (wal_header bo ps sq s1 s2)) = sq"
     "Uint32 BigEndian (drop 16 (wal_header bo ps sq s1 s2)) = s1"
     "Uint32 BigEndian (drop 20 (wal_header bo ps sq s1 s2)) = s2"
     "take 24 (wal_header bo ps sq s1 s2) = ?hf"
    by (simp_all add: wal_header_def wal_header_fields_def)
  have c: "Uint32 BigEndian (drop 24 (wal_header bo ps sq s1 s2)) = fst (checksum_units bo (0, 0) ?hf)"
     "Uint32 BigEndian (drop 28 (wal_header bo ps sq s1 s2)) = snd (checksum_units bo (0, 0) ?hf)"
    by (simp_all add: wal_header_def put_pair_def)
  show ?thesis
    using h l by (simp add: NewWALReader_def readHeader_def new_reader_def readerSize_def bytes_reader_def
        WALHeaderSize_def Let_def u c WALChecksum_def)
qed

lemma reads_image:
  assumes "wr_r r = bytes_reader bs" and "wr_size r = length bs" and "frame_offset r = length pre"
    and "bs = pre @ wal_frames (wr_bo r) (wr_salt1 r) (wr_salt2 r) (wr_chksum1 r, wr_chksum2 r) fs"
    and "pre \<noteq> []" and "unat (wr_pageSize r) + 24 < 2 ^ 32" and "unat (wr_pageSize r) mod 8 = 0"
    and "\<forall>(p, c, d) \<in> set fs. length d = unat (wr_pageSize r)"
  shows "\<exists>r'. reads r (place_frames (length pre) (unat (wr_pageSize r) + 24) fs) r'"
  using assms
proof (induction fs arbitrary: r pre)
  case Nil
  have "beyondBound r (frame_offset r) (unat (frame_size32 r))"
    using Nil.prems by (simp add: beyondBound_def unat_frame_size32)
  then have "ReadFrame r (unat (wr_pageSize r)) = (Inl EOF, r)"
    by (simp add: ReadFrame_def readFrame_def Let_def)
  then show ?case by (auto intro: reads_stop)
next
  case (Cons f fs)
  obtain p c d where f: "f = (p, c, d)" by (cases f)
  let ?ps = "unat (wr_pageSize r)"
  let ?ch = "(wr_chksum1 r, wr_chksum2 r)"
  let ?c = "checksum_units (wr_bo r) (checksum_units (wr_bo r) ?ch (put_pair (p, c))) d"
  let ?hdr = "put_pair (p, c) @ put_pair (wr_salt1 r, wr_salt2 r) @ put_pair ?c"
  let ?rest = "wal_frames (wr_bo r) (wr_salt1 r) (wr_salt2 r) ?c fs"
  define r' where "r' = r\<lparr>wr_chksum1 := fst ?c, wr_chksum2 := snd ?c, wr_frameN := Suc (wr_frameN r)\<rparr>"
  have d: "length d = ?ps" using Cons.prems f by simp
  have bs: "bs = pre @ ?hdr @ d @ ?rest" using Cons.prems f by (simp add: Let_def)
  have fsz: "unat (frame_size32 r) = ?ps + 24" using Cons.prems by (simp add: unat_frame_size32)
  have nb: "\<not> beyondBound r (frame_offset r) (unat (frame_size32 r))"
    using Cons.prems(2,3) bs d by (simp add: beyondBound_def fsz)
  have rd1: "ReadAt (wr_r r) (frame_offset r) 24 = (?hdr, None)"
    using Cons.prems(1,3) bs by (simp add: bytes_reader_def)
  have rd2: "ReadAt (wr_r r) (frame_offset r + 24) ?ps = (d, None)"
    using Cons.prems(1,3) bs d by (simp add: bytes_reader_def)
  have flds: "Uint32 BigEndian ?hdr = p" "Uint32 BigEndian (drop 4 ?hdr) = c"
    "Uint32 BigEndian (drop 8 ?hdr) = wr_salt1 r" "Uint32 BigEndian (drop 12 ?hdr) = wr_salt2 r"
    "Uint32 BigEndian (drop 16 ?hdr) = fst ?c" "Uint32 BigEndian (drop 20 ?hdr) = snd ?c"
    "take 8 ?hdr = put_pair (p, c)"
    by (simp_all add: put_pair_def)
  have rf: "ReadFrame r ?ps = (Inr (p, c, d), r')"
    using nb rd1 rd2 d Cons.prems(7)
    by (simp add: ReadFrame_def readFrame_def Let_def WALFrameHeaderSize_def WALChecksum_def flds r'_def
        split: prod.split del: drop_append take_append)
  have off: "wal_Offset r' = length pre"
    using Cons.prems(3,6) by (simp add: r'_def wal_Offset_def frame_offset_def fsz WALHeaderSize_def WALFrameHeaderSize_def add.commute)
  have "\<exists>r''. reads r' (place_frames (length (pre @ ?hdr @ d)) (unat (wr_pageSize r') + 24) fs) r''"
  proof (rule Cons.IH)
    show "frame_offset r' = length (pre @ ?hdr @ d)"
      using Cons.prems(3) d fsz by (simp add: r'_def frame_offset_def frame_size32_def)
  qed (use Cons.prems bs in \<open>auto simp: r'_def\<close>)
  then obtain r'' where "reads r' (place_frames (length pre + (?ps + 24)) (?ps + 24) fs) r''"
    using d by (auto simp: r'_def add.commute add.left_commute)
  from reads_frame [OF rf this] show ?case
    by (auto simp: f off)
qed

lemma wal_frames_append:
  "wal_frames bo s1 s2 c (a @ b) = wal_frames bo s1 s2 c a @ wal_frames bo s1 s2 (frame_chain bo c a) b"
  by (induction bo c a rule: frame_chain.induct) (auto simp: Let_def)

lemma frame_chain_snoc:
  "frame_chain bo c (a @ [(p, fc, d)]) = checksum_units bo (checksum_units bo (frame_chain bo c a) (put_pair (p, fc))) d"
  by (induction bo c a rule: frame_chain.induct) auto

lemma length_wal_frames:
  "\<forall>(p, c, d) \<in> set fs. length d = n \<Longrightarrow> length (wal_frames bo s1 s2 c fs) = length fs * (n + 24)"
  by (induction bo s1 s2 c fs rule: wal_frames.induct) (auto simp: Let_def)

lemma NewWALReaderWithOffset_image:
  assumes ps: "unat ps + 24 < 2 ^ 32" "unat ps mod 8 = 0"
    and lens: "\<forall>(p, c, d) \<in> set (a @ [f] @ b). length d = unat ps"
    and img: "img = wal_image bo ps sq s1 s2 (a @ [f] @ b)"
    and off: "off = 32 + (length a + 1) * (unat ps + 24)"
  shows "\<exists>r r'. NewWALReaderWithOffset (bytes_reader img) (int off) s1 s2 = Inr r \<and>
                reads r (place_frames off (unat ps + 24) b) r'"
proof -
  obtain p c d where f: "f = (p, c, d)" by (cases f)
  let ?ch = "checksum_units bo (0, 0) (wal_header_fields bo ps sq s1 s2)"
  let ?ca = "frame_chain bo ?ch a"
  let ?c = "checksum_units bo (checksum_units bo ?ca (put_pair (p, c))) d"
  let ?hdr = "put_pair (p, c) @ put_pair (s1, s2) @ put_pair ?c"
  let ?pre = "wal_header bo ps sq s1 s2 @ wal_frames bo s1 s2 ?ch a"
  let ?rest = "wal_frames bo s1 s2 ?c b"
  obtain r0 where r0: "NewWALReader (bytes_reader img) = Inr r0" "wr_r r0 = bytes_reader img" "wr_size r0 = length img"
    "wr_bo r0 = bo" "wr_pageSize r0 = ps" "wr_salt1 r0 = s1" "wr_salt2 r0 = s2"
    using NewWALReader_image [of bo ps sq s1 s2 "a @ [f] @ b"] img by auto
  have image: "img = ?pre @ ?hdr @ d @ ?rest"
    by (simp add: img wal_image_def wal_frames_append f Let_def)
  have d: "length d = unat ps" using lens f by auto
  have la: "length (wal_frames bo s1 s2 ?ch a) = length a * (unat ps + 24)"
    using lens by (intro length_wal_frames) auto
  have pre: "length ?pre = 32 + length a * (unat ps + 24)"
    by (simp add: la)
  define r1 where "r1 = r0\<lparr>wr_salt1 := s1, wr_salt2 := s2, wr_frameN := length a\<rparr>"
  have fsz: "unat (frame_size32 r) = unat ps + 24" if "wr_pageSize r = ps" for r
    using ps that by (simp add: unat_frame_size32)
  have fo: "frame_offset r1 = length ?pre"
    by (simp add: frame_offset_def fsz r0 r1_def la WALHeaderSize_def)
  have nb: "\<not> beyondBound r1 (frame_offset r1) (unat (frame_size32 r1))"
    using d by (simp add: beyondBound_def fsz r0 r1_def fo[unfolded r1_def] image la)
  have rd1: "ReadAt (wr_r r1) (frame_offset r1) 24 = (?hdr, None)"
    unfolding fo by (simp add: r1_def r0 bytes_reader_def image)
  have rd2: "ReadAt (wr_r r1) (frame_offset r1 + 24) (unat ps) = (d, None)"
    unfolding fo using d by (simp add: r1_def r0 bytes_reader_def image)
  have flds: "Uint32 BigEndian ?hdr = p" "Uint32 BigEndian (drop 4 ?hdr) = c"
    "Uint32 BigEndian (drop 8 ?hdr) = s1" "Uint32 BigEndian (drop 12 ?hdr) = s2"
    "Uint32 BigEndian (drop 16 ?hdr) = fst ?c" "Uint32 BigEndian (drop 20 ?hdr) = snd ?c"
    by (simp_all add: put_pair_def)
  define r2 where "r2 = r1\<lparr>wr_chksum1 := fst ?c, wr_chksum2 := snd ?c, wr_frameN := Suc (length a)\<rparr>"
  have ps1: "wr_pageSize r1 = ps" by (simp add: r1_def r0)
  have rf: "readFrame r1 (unat ps) False = (Inr (p, c, d), r2)"
    using nb rd1 rd2 d ps1
    by (simp add: readFrame_def Let_def WALFrameHeaderSize_def flds r2_def split: prod.split
        del: drop_append take_append) (simp_all add: r1_def)
  have open_eq: "NewWALReaderWithOffset (bytes_reader img) (int off) s1 s2 = Inr r2"
  proof -
    have "0 < off" "32 < off" using off by auto
    have rel: "nat (int off - 32) = (length a + 1) * (unat ps + 24)"
      unfolding off by (simp only: of_nat_add of_nat_numeral add_diff_cancel_left' nat_int)
    have "readHeader (new_reader (bytes_reader img)) = Inr r0" using r0(1) by (simp add: NewWALReader_def)
    then show ?thesis
      using \<open>32 < off\<close> rf
      by (simp add: NewWALReaderWithOffset_def WALHeaderSize_def Let_def fsz r0 rel r1_def)
  qed
  have "\<exists>r'. reads r2 (place_frames (length (?pre @ ?hdr @ d)) (unat (wr_pageSize r2) + 24) b) r'"
  proof (rule reads_image)
    show "frame_offset r2 = length (?pre @ ?hdr @ d)"
      using d by (simp add: frame_offset_def fsz r2_def r1_def r0 la WALHeaderSize_def)
    show "img = (?pre @ ?hdr @ d) @ wal_frames (wr_bo r2) (wr_salt1 r2) (wr_salt2 r2) (wr_chksum1 r2, wr_chksum2 r2) b"
      by (simp add: r2_def r1_def r0 image)
    show "?pre @ ?hdr @ d \<noteq> []"
      by (metis append_is_Nil_conv length_wal_header list.size(3) zero_neq_numeral)
  qed (use ps lens in \<open>auto simp: r2_def r1_def r0\<close>)
  moreover have "length (?pre @ ?hdr @ d) = off" using pre d by (simp add: off)
  ultimately show ?thesis
    using open_eq by (auto simp: r2_def r1_def r0)
qed

lemma agree_upto_append: "n \<le> length bs \<Longrightarrow> agree_upto n (bytes_reader bs) (bytes_reader (bs @ bs'))"
  by (auto simp: agree_upto_def bytes_reader_def)

lemma NewWALReader_reads:
  assumes "unat ps + 24 < 2 ^ 32" and "unat ps mod 8 = 0" and "\<forall>(p, c, d) \<in> set fs. length d = unat ps"
  shows "\<exists>r r'. NewWALReader (bytes_reader (wal_image bo ps sq s1 s2 fs)) = Inr r \<and> wr_pageSize r = ps \<and>
                reads r (place_frames WALHeaderSize (WALFrameHeaderSize + unat ps) fs) r'"
proof -
  let ?img = "wal_image bo ps sq s1 s2 fs" and ?hf = "wal_header_fields bo ps sq s1 s2"
  obtain r where r: "NewWALReader (bytes_reader ?img) = Inr r" "wr_r r = bytes_reader ?img" "wr_size r = length ?img"
    "wr_frameN r = 0" "wr_bo r = bo" "wr_pageSize r = ps" "wr_salt1 r = s1" "wr_salt2 r = s2"
    "(wr_chksum1 r, wr_chksum2 r) = checksum_units bo (0, 0) ?hf"
    using NewWALReader_image [of bo ps sq s1 s2 fs] by auto
  have "\<exists>r'. reads r (place_frames (length (wal_header bo ps sq s1 s2)) (unat (wr_pageSize r) + 24) fs) r'"
  proof (rule reads_image)
    show "wal_header bo ps sq s1 s2 \<noteq> []"
      by (metis length_wal_header list.size(3) zero_neq_numeral)
  qed (use r assms in \<open>auto simp: frame_offset_def WALHeaderSize_def wal_image_def\<close>)
  with r show ?thesis by (auto simp: WALHeaderSize_def WALFrameHeaderSize_def add.commute)
qed

subsection \<open>Properties\<close>

text \<open>
  C4. Reading back a WAL: for every header and every list of frames whose pages have the header's page
  size, \<open>NewWALReader\<close> accepts the image and the calls of \<open>ReadFrame\<close> return exactly the frames that were
  written, in order, each with its offset, and then the end of the WAL.
\<close>

theorem WALReader_reads_image:
  assumes "unat ps + 24 < 2 ^ 32" and "unat ps mod 8 = 0" and "\<forall>(p, c, d) \<in> set fs. length d = unat ps"
  shows "\<exists>r r'. NewWALReader (bytes_reader (wal_image bo ps sq s1 s2 fs)) = Inr r \<and> wr_pageSize r = ps \<and>
                reads r (place_frames WALHeaderSize (WALFrameHeaderSize + unat ps) fs) r'"
  using assms by (rule NewWALReader_reads)

theorem WALReader_reads_image_witness:
  "\<exists>r r'. NewWALReader (bytes_reader (wal_image LittleEndian 8 1 7 9 [(2, 0, replicate 8 5), (1, 2, replicate 8 6)])) = Inr r \<and>
          wr_pageSize r = 8 \<and>
          reads r [(2, 0, 32, replicate 8 5), (1, 2, 64, replicate 8 6)] r'"
  using WALReader_reads_image [of 8 "[(2, 0, replicate 8 5), (1, 2, replicate 8 6)]" LittleEndian 1 7 9]
  by (simp add: WALHeaderSize_def WALFrameHeaderSize_def)

text \<open>
  C5. Resuming in the middle of a WAL: \<open>NewWALReaderWithOffset\<close>, opened at the offset after any frame with
  the header's salts, returns exactly the frames that follow, as a reader that started at the beginning
  would. The checksum of the frame before the offset carries the chain over.
\<close>

theorem WALReader_resumes_at_offset:
  assumes "unat ps + 24 < 2 ^ 32" and "unat ps mod 8 = 0"
    and "\<forall>(p, c, d) \<in> set (a @ [f] @ b). length d = unat ps"
    and "off = WALHeaderSize + (length a + 1) * (WALFrameHeaderSize + unat ps)"
  shows "\<exists>r r'. NewWALReaderWithOffset (bytes_reader (wal_image bo ps sq s1 s2 (a @ [f] @ b))) (int off) s1 s2 = Inr r \<and>
                reads r (place_frames off (WALFrameHeaderSize + unat ps) b) r'"
  using NewWALReaderWithOffset_image [OF assms(1-3) refl, of off bo sq s1 s2] assms(4)
  by (simp add: WALHeaderSize_def WALFrameHeaderSize_def add.commute)

theorem WALReader_resumes_at_offset_witness:
  "\<exists>r r'. NewWALReaderWithOffset
            (bytes_reader (wal_image BigEndian 8 1 7 9 ([] @ [(2, 0, replicate 8 5)] @ [(1, 2, replicate 8 6)]))) (int 64) 7 9 = Inr r \<and>
          reads r [(1, 2, 64, replicate 8 6)] r'"
  using WALReader_resumes_at_offset [of 8 "[]" "(2, 0, replicate 8 5)" "[(1, 2, replicate 8 6)]" 64 BigEndian 1 7 9]
  by (simp add: WALHeaderSize_def WALFrameHeaderSize_def)

text \<open>
  C6. The page map is the latest version of each committed page: whatever frames the reader returns,
  \<open>PageMap\<close> maps a page to the offset of its last frame among the frames up to the last commit record, for
  the pages within the committed database size, and to nothing else. Frames after the last commit never
  appear. The end offset is the end of the furthest frame in the map, and the commit size is the one of the
  last commit record. Clearing the transaction's map at each commit does not change the result.
\<close>

theorem PageMap_committed_latest:
  assumes "reads r fs r'"
  shows "\<exists>m end commit. PageMap (\<lambda>_. False) r = Some (Inr (m, end, commit)) \<and>
           (let ks = map frame_key fs in
              (\<forall>p. map_of m p = (if p \<le> final_commit ks then latest (committed ks) p else None)) \<and>
              (m = [] \<longrightarrow> end = 0 \<and> commit = 0) \<and>
              (m \<noteq> [] \<longrightarrow> commit = final_commit ks \<and>
                          end = Max (snd ` set m) + WALFrameHeaderSize + unat (wr_pageSize r')))"
proof -
  let ?ks = "map frame_key fs"
  obtain m tx c where st: "fold page_step ?ks ([], [], 0) = (m, tx, c)"
    by (cases "fold page_step ?ks ([], [], 0)")
  note inv = fold_page_step [OF st]
  have "page_loop (\<lambda>_. False) 0 r ([], [], 0) = Some (Inr (m, tx, c, r'))"
    using page_loop_reads [OF assms, of 0 "([], [], 0)"] st by simp
  then have pm: "PageMap (\<lambda>_. False) r =
      Some (Inr (if drop_beyond c m = [] then ([], 0, 0)
                 else (drop_beyond c m, max_offset (drop_beyond c m) + WALFrameHeaderSize + unat (wr_pageSize r'), c)))"
    by (simp add: PageMap_def Let_def)
  have lk: "map_of (drop_beyond c m) p = (if p \<le> final_commit ?ks then latest (committed ?ks) p else None)" for p
    using inv by (auto simp: map_of_drop_beyond not_le)
  show ?thesis
  proof (cases "drop_beyond c m = []")
    case True
    with pm lk show ?thesis by (intro exI [of _ "[]"] exI [of _ 0]) (simp add: Let_def)
  next
    case False
    with pm lk inv show ?thesis
      by (intro exI [of _ "drop_beyond c m"] exI conjI) (simp_all add: Let_def max_offset_Max)
  qed
qed

theorem PageMap_committed_latest_witness:
  "\<exists>r m end commit.
     NewWALReader (bytes_reader (wal_image LittleEndian 8 1 7 9
       [(2, 0, replicate 8 5), (1, 2, replicate 8 6), (2, 0, replicate 8 7)])) = Inr r \<and>
     PageMap (\<lambda>_. False) r = Some (Inr (m, end, commit)) \<and>
     map_of m 2 = Some 32 \<and> map_of m 1 = Some 64 \<and> commit = 2"
proof -
  let ?fs = "[(2, 0, replicate 8 5), (1, 2, replicate 8 6), (2, 0, replicate 8 7)] :: (u32 \<times> u32 \<times> byte list) list"
  define fs where "fs = place_frames 32 32 ?fs"
  have ks: "map frame_key fs = [(2, 0, 32), (1, 2, 64), (2, 0, 96)]"
    by (simp add: fs_def)
  obtain r r' where r: "NewWALReader (bytes_reader (wal_image LittleEndian 8 1 7 9 ?fs)) = Inr r" "reads r fs r'"
  proof -
    have "unat (8 :: u32) + 24 < 2 ^ 32" "unat (8 :: u32) mod 8 = 0" "\<forall>(p, c, d) \<in> set ?fs. length d = unat (8 :: u32)"
      and fs: "fs = place_frames WALHeaderSize (WALFrameHeaderSize + unat (8 :: u32)) ?fs"
      by (simp_all add: fs_def WALHeaderSize_def WALFrameHeaderSize_def)
    from NewWALReader_reads [OF this(1-3), of LittleEndian 1 7 9] that show ?thesis
      unfolding fs by blast
  qed
  obtain m e c where m: "PageMap (\<lambda>_. False) r = Some (Inr (m, e, c))"
      "\<forall>p. map_of m p = (if p \<le> final_commit (map frame_key fs) then latest (committed (map frame_key fs)) p else None)"
      "m \<noteq> [] \<longrightarrow> c = final_commit (map frame_key fs)"
    using PageMap_committed_latest [OF r(2)] unfolding Let_def by blast
  have "map_of m 1 = Some 64" and two: "map_of m 2 = Some 32" and "m \<noteq> [] \<longrightarrow> c = 2"
    using m(2) [rule_format, of 1] m(2) [rule_format, of 2] m(3)
    by (simp_all add: ks final_commit_def committed_def latest_def)
  moreover have "m \<noteq> []" using two by auto
  ultimately show ?thesis using r(1) m(1) by blast
qed

text \<open>
  C7. The size captured when the reader is opened bounds every scan: with a non-zero bound and a non-zero
  frame size, \<open>PageMap\<close> and \<open>FrameSaltsUntil\<close> return, whatever the reader returns, so also when a writer
  keeps appending frames.
\<close>

theorem wal_scans_terminate:
  assumes "0 < wr_size r" and "frame_size32 r \<noteq> 0"
  shows "(\<exists>res. PageMap ctx r = Some res) \<and> (\<exists>res. FrameSaltsUntil r until = Some res)"
proof -
  have "\<exists>res. PageMap ctx r = Some res"
    using page_loop_total [OF assms, of ctx 0 "([], [], 0)"]
    by (auto simp: PageMap_def split: option.splits sum.splits)
  moreover have "\<exists>res. FrameSaltsUntil r until = Some res"
    using salts_loop_total [OF assms] by (auto simp: FrameSaltsUntil_def)
  ultimately show ?thesis by blast
qed

theorem wal_scans_terminate_witness:
  "let r = (new_reader \<lparr>ReadAt = (\<lambda>off n. (replicate n 0, None)), SizeOf = None\<rparr>)\<lparr>wr_size := 100, wr_pageSize := 8\<rparr>
   in (\<exists>res. PageMap (\<lambda>_. False) r = Some res) \<and> (\<exists>res. FrameSaltsUntil r (1, 1) = Some res)"
  using wal_scans_terminate
    [of "(new_reader \<lparr>ReadAt = (\<lambda>off n. (replicate n 0, None)), SizeOf = None\<rparr>)\<lparr>wr_size := 100, wr_pageSize := 8\<rparr>"]
  by (simp add: Let_def frame_size32_def WALFrameHeaderSize_def)

text \<open>
  C8. Frames that a concurrent writer appends behind the captured bound do not change the page map: two
  readers that agree below the bound give the same result.
\<close>

theorem PageMap_ignores_appended_frames:
  assumes "agree_upto (wr_size r) (wr_r r) rd'" and "0 < wr_size r" and "unat (wr_pageSize r) + 24 < 2 ^ 32"
  shows "PageMap ctx (r\<lparr>wr_r := rd'\<rparr>) = PageMap ctx r"
  using assms by (rule PageMap_agree)

theorem PageMap_ignores_appended_frames_witness:
  "let r = (new_reader (bytes_reader (replicate 64 1)))\<lparr>wr_size := 64, wr_pageSize := 8\<rparr>
   in PageMap (\<lambda>_. False) (r\<lparr>wr_r := bytes_reader (replicate 64 1 @ replicate 32 2)\<rparr>) = PageMap (\<lambda>_. False) r"
proof -
  let ?r = "(new_reader (bytes_reader (replicate 64 1)))\<lparr>wr_size := 64, wr_pageSize := 8\<rparr>"
  have "agree_upto (wr_size ?r) (wr_r ?r) (bytes_reader (replicate 64 1 @ replicate 32 2))"
    using agree_upto_append [of 64 "replicate 64 1" "replicate 32 2"] by (simp only: new_reader_def length_replicate order_refl simp_thms WALReader.simps)
  moreover have "0 < wr_size ?r" "unat (wr_pageSize ?r) + 24 < 2 ^ 32" by simp_all
  ultimately show ?thesis unfolding Let_def by (rule PageMap_ignores_appended_frames)
qed

text \<open>
  C9. A header whose page size is \<open>2 ^ 32 - 24\<close> makes the 32-bit frame size zero, and \<open>FrameSaltsUntil\<close> then
  never advances: on any file with a readable first frame header whose salts are not the expected ones, the
  loop does not return, bound or not.
\<close>

theorem FrameSaltsUntil_zero_frame_size_diverges:
  assumes "wr_pageSize r = 0xFFFFFFE8" and "wr_size r = 0 \<or> WALHeaderSize \<le> wr_size r"
    and "ReadAt (wr_r r) WALHeaderSize WALFrameHeaderSize = (hdr, None)" and "length hdr = WALFrameHeaderSize"
    and "(Uint32 BigEndian (drop 8 hdr), Uint32 BigEndian (drop 12 hdr)) \<noteq> until"
  shows "FrameSaltsUntil r until = None"
  unfolding FrameSaltsUntil_def
  by (rule salts_loop_diverges)
    (use assms in \<open>auto simp: frame_size32_def beyondBound_def WALFrameHeaderSize_def\<close>)

theorem FrameSaltsUntil_zero_frame_size_diverges_witness:
  "FrameSaltsUntil ((new_reader (bytes_reader (replicate 64 0)))\<lparr>wr_size := 64, wr_pageSize := 0xFFFFFFE8\<rparr>) (1, 1) = None"
proof (rule FrameSaltsUntil_zero_frame_size_diverges)
  show "ReadAt (wr_r ((new_reader (bytes_reader (replicate 64 0)))\<lparr>wr_size := 64, wr_pageSize := 0xFFFFFFE8\<rparr>))
      WALHeaderSize WALFrameHeaderSize = (replicate 24 0, None)"
    by (simp add: new_reader_def bytes_reader_def WALHeaderSize_def WALFrameHeaderSize_def)
  show "(Uint32 BigEndian (drop 8 (replicate 24 0)), Uint32 BigEndian (drop 12 (replicate 24 0))) \<noteq> (1, 1)"
    by (simp add: Uint32_def be_join_def numeral_eq_Suc)
qed (simp_all add: WALHeaderSize_def WALFrameHeaderSize_def)

end
