(* ===== verification/GoErr.thy ===== *)
theory GoErr
  imports Prelude
begin

text \<open>
  Go error values as the program inspects them: sentinels, opaque errors, wrapped errors
  (\<^verbatim>\<open>fmt.Errorf\<close> with \<^verbatim>\<open>%w\<close>), path errors of the operating system, and the program's own \<open>LTXError\<close>
  (\<^verbatim>\<open>src/replicate.go\<close>). \<open>errors_Is\<close> follows every wrapper; \<open>os_IsNotExist\<close> looks through a path error only.
\<close>

datatype sentinel =
    io_EOF
  | ErrUnexpectedEOF
  | os_ErrNotExist
  | os_ErrExist
  | ctx_Canceled
  | ctx_DeadlineExceeded
  | ErrNoSnapshots
  | ErrChecksumMismatch
  | ErrLTXCorrupted
  | ErrLTXMissing
  | ErrStopIter
  | ErrTxNotAvailable
  | ErrNoCompaction
  | ErrCompactionTooEarly
  | ErrDBNotReady
  | ErrShutdownInterrupted
  | ErrLeaseNotHeld
  | ErrEncryptionRequired
  | ErrDatabaseNotOpen
  | ErrDatabaseNotFound
  | ErrLeaseRequired
  | ErrLeaseETagRequired
  | ErrLeaseAlreadyReleased
  | ErrTTLExceedsMax
  | ErrLeaseCorrupt
  | io_ErrClosedPipe
  | os_ErrInvalid

datatype hint = NoHint | HintMissing | HintCorrupted

datatype goerr =
    Sentinel sentinel
  | Errorf string
  | Wrapf string goerr
  | PathError string goerr
  | LTXError (Op: string) (ErrLevel: int) (ErrMinTXID: txid) (ErrMaxTXID: txid) (Err: goerr) (Hint: hint)
  | LeaseExistsError string instant
  | APIError string
  | OperationError "nat option" goerr
  | AckError "8 word" txid
  | Join goerr goerr

text \<open>
  \<open>LeaseExistsError\<close> is the error of \<^verbatim>\<open>src/leaser.go\<close>, \<open>AckError\<close> the one of \<^verbatim>\<open>src/peer/peer.go\<close>. \<open>APIError\<close> is an
  error of the S3 service with its code, \<open>OperationError\<close> the client's wrapper with the HTTP status of the error
  inside, if it has one. \<open>Join\<close> is \<^verbatim>\<open>errors.Join\<close> of two errors.
\<close>

fun errors_Is :: "goerr \<Rightarrow> sentinel \<Rightarrow> bool" where
  "errors_Is (Sentinel s) t \<longleftrightarrow> s = t"
| "errors_Is (Errorf _) t \<longleftrightarrow> False"
| "errors_Is (Wrapf _ e) t \<longleftrightarrow> errors_Is e t"
| "errors_Is (PathError _ e) t \<longleftrightarrow> errors_Is e t"
| "errors_Is (LTXError _ _ _ _ e _) t \<longleftrightarrow> errors_Is e t"
| "errors_Is (LeaseExistsError _ _) t \<longleftrightarrow> False"
| "errors_Is (APIError _) t \<longleftrightarrow> False"
| "errors_Is (OperationError _ e) t \<longleftrightarrow> errors_Is e t"
| "errors_Is (AckError _ _) t \<longleftrightarrow> False"
| "errors_Is (Join a b) t \<longleftrightarrow> errors_Is a t \<or> errors_Is b t"

text \<open>\<^verbatim>\<open>errors.As\<close> for the error types the program looks for: the first error of the type along the chain.\<close>

fun unwrap :: "goerr \<Rightarrow> goerr list" where
  "unwrap (Wrapf m e) = Wrapf m e # unwrap e"
| "unwrap (PathError m e) = PathError m e # unwrap e"
| "unwrap (LTXError op l a b e h) = LTXError op l a b e h # unwrap e"
| "unwrap (OperationError c e) = OperationError c e # unwrap e"
| "unwrap (Join a b) = Join a b # unwrap a @ unwrap b"
| "unwrap e = [e]"

definition as_LeaseExists :: "goerr \<Rightarrow> bool" where
  "as_LeaseExists e \<longleftrightarrow> list_ex (\<lambda>x. case x of LeaseExistsError _ _ \<Rightarrow> True | _ \<Rightarrow> False) (unwrap e)"

definition as_APIError :: "goerr \<Rightarrow> string option" where
  "as_APIError e =
     (case List.extract (\<lambda>x. case x of APIError _ \<Rightarrow> True | _ \<Rightarrow> False) (unwrap e) of
        Some (_, APIError code, _) \<Rightarrow> Some code
      | _ \<Rightarrow> None)"

definition as_OperationError :: "goerr \<Rightarrow> nat option option" where
  "as_OperationError e =
     (case List.extract (\<lambda>x. case x of OperationError _ _ \<Rightarrow> True | _ \<Rightarrow> False) (unwrap e) of
        Some (_, OperationError st _, _) \<Rightarrow> Some st
      | _ \<Rightarrow> None)"

fun os_IsNotExist :: "goerr \<Rightarrow> bool" where
  "os_IsNotExist (Sentinel s) \<longleftrightarrow> s = os_ErrNotExist"
| "os_IsNotExist (PathError _ e) \<longleftrightarrow> e = Sentinel os_ErrNotExist"
| "os_IsNotExist _ \<longleftrightarrow> False"

definition missing_err :: "goerr \<Rightarrow> bool" where
  "missing_err e \<longleftrightarrow> os_IsNotExist e \<or> errors_Is e ErrLTXMissing"

definition corrupt_err :: "goerr \<Rightarrow> bool" where
  "corrupt_err e \<longleftrightarrow> errors_Is e ErrLTXCorrupted \<or> errors_Is e ErrChecksumMismatch"

definition NewLTXError :: "string \<Rightarrow> int \<Rightarrow> txid \<Rightarrow> txid \<Rightarrow> goerr \<Rightarrow> goerr" where
  "NewLTXError op level minTXID maxTXID err =
     LTXError op level minTXID maxTXID err
       (if missing_err err then HintMissing else if corrupt_err err then HintCorrupted else NoHint)"

definition IsAutoRecoverable :: "goerr \<Rightarrow> bool" where
  "IsAutoRecoverable e \<longleftrightarrow> missing_err (Err e) \<or> corrupt_err (Err e)"

lemma os_IsNotExist_Is: "os_IsNotExist e \<Longrightarrow> errors_Is e os_ErrNotExist"
  by (cases e) auto

text \<open>
  The recovery hint of an \<open>LTXError\<close> and the decision to recover agree: the error is auto-recoverable
  exactly when a hint was attached, it stays visible to \<open>errors.Is\<close> through the wrapper, but
  \<open>os.IsNotExist\<close> no longer recognises it.
\<close>

theorem LTXError_hint_iff_recoverable:
  "(IsAutoRecoverable (NewLTXError op l a b e) \<longleftrightarrow> Hint (NewLTXError op l a b e) \<noteq> NoHint) \<and>
   errors_Is (NewLTXError op l a b e) s = errors_Is e s \<and>
   \<not> os_IsNotExist (NewLTXError op l a b e)"
  by (simp add: NewLTXError_def IsAutoRecoverable_def)

end
