(* ===== verification/Readers.thy ===== *)
theory Readers
  imports GoErr
begin

text \<open>
  The program's byte readers (\<^verbatim>\<open>src/internal/\<close>): sniffing for an encrypted object
  (\<^verbatim>\<open>ltx_timestamp.go\<close>), the length-limited reader (\<^verbatim>\<open>limit_read_closer.go\<close>) and the reader that
  reconnects (\<^verbatim>\<open>resumable_reader.go\<close>).

  An \<^verbatim>\<open>io.Reader\<close> that is consumed to its end is a \<open>stream\<close>: the bytes it yields and the error that ends it,
  \<open>None\<close> for the end of file. Where the size of the single calls matters a reader is a function
  \<open>rd c n = ((bs, e), c')\<close>: \<^verbatim>\<open>Read\<close> with a buffer of \<open>n\<close> bytes.
\<close>

subsection \<open>Streams\<close>

type_synonym stream = "byte list \<times> goerr option"

definition ReadFull :: "stream \<Rightarrow> nat \<Rightarrow> byte list \<times> stream" where
  "ReadFull rd n = (take n (fst rd), (drop n (fst rd), snd rd))"

definition MultiReader :: "byte list \<Rightarrow> stream \<Rightarrow> stream" where
  "MultiReader bs rd = (bs @ fst rd, snd rd)"

definition go_bytes :: "string \<Rightarrow> byte list" where
  "go_bytes s = map of_char s"

definition ageStreamIntro :: "byte list" where
  "ageStreamIntro = go_bytes ''age-encryption.org/v1''"

definition UnixMilli :: "int \<Rightarrow> instant" where
  "UnixMilli ms = (ms + 62135596800000) * 1000000"

type_synonym peek_header = "stream \<Rightarrow> (goerr + int) \<times> stream"

definition ExtractLTXTimestamp :: "peek_header \<Rightarrow> instant \<Rightarrow> stream \<Rightarrow> (goerr + instant) \<times> stream" where
  "ExtractLTXTimestamp PeekHeader now rd =
     (let (sniff, rest) = ReadFull rd (length ageStreamIntro);
          full = MultiReader sniff rest
      in if sniff = ageStreamIntro then (Inr now, full)
         else case PeekHeader full of
                (Inl e, reader) \<Rightarrow> (Inl (Wrapf ''extract timestamp from LTX header'' e), reader)
              | (Inr ts, reader) \<Rightarrow> (Inr (UnixMilli ts), reader))"

definition DecryptIfSealed :: "stream \<Rightarrow> (stream \<Rightarrow> goerr + stream) \<Rightarrow> goerr + stream" where
  "DecryptIfSealed rd decrypt =
     (let (sniff, rest) = ReadFull rd (length ageStreamIntro);
          full = MultiReader sniff rest
      in if sniff \<noteq> ageStreamIntro then Inr full else decrypt full)"

lemma MultiReader_ReadFull [simp]: "MultiReader (take n (fst rd)) (drop n (fst rd), snd rd) = rd"
  by (simp add: MultiReader_def)

definition sealed :: "byte list \<Rightarrow> bool" where
  "sealed bs \<longleftrightarrow> take (length ageStreamIntro) bs = ageStreamIntro"

lemma MultiReader_intro: "sealed (fst rd) \<Longrightarrow> MultiReader ageStreamIntro (drop (length ageStreamIntro) (fst rd), snd rd) = rd"
  unfolding MultiReader_def sealed_def by (metis append_take_drop_id fst_conv prod.collapse snd_conv)

lemma DecryptIfSealed_eq: "DecryptIfSealed rd decrypt = (if sealed (fst rd) then decrypt rd else Inr rd)"
  using MultiReader_intro [of rd] by (simp add: DecryptIfSealed_def ReadFull_def sealed_def Let_def)

lemma ExtractLTXTimestamp_eq:
  "ExtractLTXTimestamp pk now rd =
     (if sealed (fst rd) then (Inr now, rd)
      else case pk rd of (Inl e, reader) \<Rightarrow> (Inl (Wrapf ''extract timestamp from LTX header'' e), reader)
           | (Inr ts, reader) \<Rightarrow> (Inr (UnixMilli ts), reader))"
  using MultiReader_intro [of rd] by (simp add: ExtractLTXTimestamp_def ReadFull_def sealed_def Let_def)

subsection \<open>Readers by calls\<close>

text \<open>\<open>file_Read\<close> is \<^verbatim>\<open>os.File.Read\<close> on an open file: its contents and its position.\<close>

definition file_Read :: "byte list \<times> nat \<Rightarrow> nat \<Rightarrow> (byte list \<times> goerr option) \<times> byte list \<times> nat" where
  "file_Read f n =
     (let bs = take n (drop (snd f) (fst f))
      in ((bs, if n \<noteq> 0 \<and> bs = [] then Some (Sentinel io_EOF) else None), (fst f, snd f + length bs)))"

record 'c LimitedReadCloser =
  lrc_R :: 'c
  lrc_N :: int

definition lrc_Read ::
  "('c \<Rightarrow> nat \<Rightarrow> (byte list \<times> goerr option) \<times> 'c) \<Rightarrow> 'c LimitedReadCloser \<Rightarrow> nat \<Rightarrow>
   (byte list \<times> goerr option) \<times> 'c LimitedReadCloser" where
  "lrc_Read rd l n =
     (if lrc_N l \<le> 0 then (([], Some (Sentinel io_EOF)), l)
      else let n' = (if int n > lrc_N l then nat (lrc_N l) else n);
               ((bs, e), c) = rd (lrc_R l) n'
           in ((bs, e), l\<lparr>lrc_R := c, lrc_N := lrc_N l - int (length bs)\<rparr>))"

text \<open>
  The resumable reader: \<open>rr_rc\<close> is the open connection (\<open>None\<close> once it was closed), \<open>rr_client\<close> the state of
  the storage client, which \<open>opn\<close> (\<^verbatim>\<open>OpenLTXFile\<close> of the client, at an offset) may change.
\<close>

record ('c, 's) ResumableReader =
  rr_size :: int
  rr_offset :: nat
  rr_rc :: "'c option"
  rr_client :: 's

definition resumableReaderMaxRetries :: nat where
  "resumableReaderMaxRetries = 3"

fun rr_attempts ::
  "('c \<Rightarrow> nat \<Rightarrow> (byte list \<times> goerr option) \<times> 'c) \<Rightarrow> ('s \<Rightarrow> nat \<Rightarrow> (goerr + 'c) \<times> 's) \<Rightarrow> nat \<Rightarrow>
   ('c, 's) ResumableReader \<Rightarrow> nat \<Rightarrow> (byte list \<times> goerr option) \<times> ('c, 's) ResumableReader" where
  "rr_attempts rd opn 0 r n = (([], Some (Errorf ''max retries exceeded reading ltx file'')), r)"
| "rr_attempts rd opn (Suc k) r n =
     (let (o_err, r) =
        (case rr_rc r of
           Some c \<Rightarrow> (None, r)
         | None \<Rightarrow> (case opn (rr_client r) (rr_offset r) of
                      (Inl e, s) \<Rightarrow> (Some (Wrapf ''reopen ltx file'' e), r\<lparr>rr_client := s\<rparr>)
                    | (Inr c, s) \<Rightarrow> (None, r\<lparr>rr_client := s, rr_rc := Some c\<rparr>)))
      in case (o_err, rr_rc r) of
           (Some e, _) \<Rightarrow> (([], Some e), r)
         | (None, None) \<Rightarrow> (([], None), r)
         | (None, Some c) \<Rightarrow>
             let ((bs, err), c') = rd c n;
                 r = r\<lparr>rr_rc := Some c', rr_offset := rr_offset r + length bs\<rparr>
             in case err of
                  None \<Rightarrow> ((bs, None), r)
                | Some e \<Rightarrow>
                    if e = Sentinel io_EOF \<and> \<not> (rr_size r > 0 \<and> int (rr_offset r) < rr_size r)
                    then ((bs, Some (Sentinel io_EOF)), r)
                    else let r = r\<lparr>rr_rc := None\<rparr>
                         in if length bs > 0 then ((bs, None), r) else rr_attempts rd opn k r n)"

definition rr_Read ::
  "('c \<Rightarrow> nat \<Rightarrow> (byte list \<times> goerr option) \<times> 'c) \<Rightarrow> ('s \<Rightarrow> nat \<Rightarrow> (goerr + 'c) \<times> 's) \<Rightarrow>
   ('c, 's) ResumableReader \<Rightarrow> nat \<Rightarrow> (byte list \<times> goerr option) \<times> ('c, 's) ResumableReader" where
  "rr_Read rd opn r n = rr_attempts rd opn (resumableReaderMaxRetries + 1) r n"

text \<open>Successive \<^verbatim>\<open>Read\<close> calls with the given buffer sizes, up to the first error.\<close>

fun read_calls :: "('c \<Rightarrow> nat \<Rightarrow> (byte list \<times> goerr option) \<times> 'c) \<Rightarrow> 'c \<Rightarrow> nat list \<Rightarrow> (byte list \<times> goerr option) \<times> 'c" where
  "read_calls rd c [] = (([], None), c)"
| "read_calls rd c (n # ns) =
     (case rd c n of
        ((bs, Some e), c') \<Rightarrow> ((bs, Some e), c')
      | ((bs, None), c') \<Rightarrow> (let ((bs', e), c'') = read_calls rd c' ns in ((bs @ bs', e), c'')))"

subsection \<open>The contract of a reader that is positioned in an object\<close>

locale ranged_reader =
  fixes rd :: "'c \<Rightarrow> nat \<Rightarrow> (byte list \<times> goerr option) \<times> 'c"
    and at :: "byte list \<Rightarrow> nat \<Rightarrow> 'c \<Rightarrow> bool"
  assumes rd_at: "at content off c \<Longrightarrow> rd c n = ((bs, e), c') \<Longrightarrow>
    length bs \<le> n \<and> take (length bs) (drop off content) = bs \<and> at content (off + length bs) c'"
begin

lemma read_calls_at:
  "at content off c \<Longrightarrow> read_calls rd c ns = ((bs, e), c') \<Longrightarrow>
   take (length bs) (drop off content) = bs \<and> at content (off + length bs) c'"
proof (induction ns arbitrary: off c bs)
  case (Cons n ns)
  obtain b e1 c1 where rd: "rd c n = ((b, e1), c1)" by (metis prod.exhaust)
  note here = rd_at [OF Cons.prems(1) rd]
  show ?case
  proof (cases e1)
    case None
    then obtain b2 where bs: "bs = b @ b2" "read_calls rd c1 ns = ((b2, e), c')"
      using Cons.prems(2) rd by (auto split: prod.splits)
    then show ?thesis
      using Cons.IH [of "off + length b" c1 b2] here by (simp add: take_add add.assoc)
        (metis append_take_drop_id drop_drop take_add add.commute)
  qed (use Cons.prems(2) rd here in auto)
qed simp

end

lemma take_min_length: "take (min (length xs - k) n) (drop k xs) = take n (drop k xs)"
  by (metis length_drop length_take take_all_iff take_take order_refl)

interpretation os_file: ranged_reader file_Read "\<lambda>content off f. f = (content, off)"
  by unfold_locales (auto simp: file_Read_def Let_def take_min_length)

text \<open>Limiting a positioned reader gives a positioned reader.\<close>

context ranged_reader begin

lemma limited_reader: "ranged_reader (lrc_Read rd) (\<lambda>content off l. at content off (lrc_R l))"
proof unfold_locales
  fix content off l n bs e l'
  assume at: "at content off (lrc_R l)" and rd: "lrc_Read rd l n = ((bs, e), l')"
  show "length bs \<le> n \<and> take (length bs) (drop off content) = bs \<and> at content (off + length bs) (lrc_R l')"
  proof (cases "lrc_N l \<le> 0")
    case True
    with at rd show ?thesis by (auto simp: lrc_Read_def)
  next
    case False
    define n' where "n' = (if int n > lrc_N l then nat (lrc_N l) else n)"
    obtain b e1 c1 where r1: "rd (lrc_R l) n' = ((b, e1), c1)" by (metis prod.exhaust)
    have "n' \<le> n" by (auto simp: n'_def)
    with rd_at [OF at r1] rd r1 False show ?thesis
      by (auto simp: lrc_Read_def n'_def [symmetric] Let_def)
  qed
qed

end

interpretation limited_file: ranged_reader "lrc_Read file_Read" "\<lambda>content off l. lrc_R l = (content, off)"
  by (rule os_file.limited_reader)

subsection \<open>The resumable reader\<close>

definition rr_at ::
  "(byte list \<Rightarrow> nat \<Rightarrow> 'c \<Rightarrow> bool) \<Rightarrow> byte list \<Rightarrow> ('s \<Rightarrow> bool) \<Rightarrow> nat \<Rightarrow> ('c, 's) ResumableReader \<Rightarrow> bool" where
  "rr_at at object holds off r \<longleftrightarrow>
     rr_offset r = off \<and> holds (rr_client r) \<and> (\<forall>c. rr_rc r = Some c \<longrightarrow> at object off c)"

text \<open>
  What the storage client promises, as long as the store holds the object (\<open>holds\<close>): a connection opened at
  an offset reads the object from there. It may break at any time, with any error or with a premature end of
  file, and opening it may fail.
\<close>

locale ranged_open = ranged_reader rd at
  for rd :: "'c \<Rightarrow> nat \<Rightarrow> (byte list \<times> goerr option) \<times> 'c" and at :: "byte list \<Rightarrow> nat \<Rightarrow> 'c \<Rightarrow> bool" +
  fixes opn :: "'s \<Rightarrow> nat \<Rightarrow> (goerr + 'c) \<times> 's" and object :: "byte list" and holds :: "'s \<Rightarrow> bool"
  assumes opn_at: "holds s \<Longrightarrow> opn s off = (Inr c, s') \<Longrightarrow> at object off c \<and> holds s'"
    and opn_err: "holds s \<Longrightarrow> opn s off = (Inl e, s') \<Longrightarrow> holds s'"
begin

lemma rr_attempts_at:
  assumes "rr_at at object holds off r" and "rr_attempts rd opn k r n = ((bs, e), r')"
  shows "length bs \<le> n \<and> take (length bs) (drop off object) = bs \<and> rr_at at object holds (off + length bs) r' \<and> rr_size r' = rr_size r \<and>
         (e = Some (Sentinel io_EOF) \<and> 0 < rr_size r \<longrightarrow> rr_size r \<le> int (off + length bs))"
  using assms
proof (induction k arbitrary: r)
  case (Suc k)
  have step: ?case if r1: "rr_rc r1 = Some c" "rr_offset r1 = off" "at object off c" "rr_size r1 = rr_size r" "holds (rr_client r1)"
    and run: "rr_attempts rd opn (Suc k) r1 n = ((bs, e), r')" for r1 c
  proof -
    obtain b e1 c1 where rd: "rd c n = ((b, e1), c1)" by (metis prod.exhaust)
    note here = rd_at [OF r1(3) rd]
    let ?r2 = "r1\<lparr>rr_rc := None, rr_offset := off + length b\<rparr>"
    consider "e1 = None"
      | "e1 = Some (Sentinel io_EOF)" "\<not> (rr_size r > 0 \<and> int (off + length b) < rr_size r)"
      | e2 where "e1 = Some e2" "\<not> (e2 = Sentinel io_EOF \<and> \<not> (rr_size r > 0 \<and> int (off + length b) < rr_size r))" "b \<noteq> []"
      | e2 where "e1 = Some e2" "\<not> (e2 = Sentinel io_EOF \<and> \<not> (rr_size r > 0 \<and> int (off + length b) < rr_size r))" "b = []"
      by (cases e1; cases "b = []") blast+
    then show ?thesis
    proof cases
      case 4
      then have "rr_attempts rd opn k ?r2 n = ((bs, e), r')" using run r1 rd by (auto simp: Let_def)
      moreover have "rr_at at object holds off ?r2" using 4 r1(5) by (simp add: rr_at_def)
      ultimately show ?thesis using Suc.IH [of ?r2] r1(4) by simp
    qed (use run r1 rd here in \<open>auto simp: Let_def rr_at_def split: if_splits\<close>)
  qed
  show ?case
  proof (cases "rr_rc r")
    case (Some c)
    with Suc.prems show ?thesis by (intro step [of r c]) (auto simp: rr_at_def simp del: rr_attempts.simps)
  next
    case None
    obtain o1 s1 where o1: "opn (rr_client r) (rr_offset r) = (o1, s1)" by (metis prod.exhaust)
    show ?thesis
    proof (cases o1)
      case (Inl e1)
      with None o1 Suc.prems opn_err [of "rr_client r" "rr_offset r" e1 s1] show ?thesis by (auto simp: rr_at_def)
    next
      case (Inr c)
      let ?r1 = "r\<lparr>rr_client := s1, rr_rc := Some c\<rparr>"
      have "rr_attempts rd opn (Suc k) ?r1 n = rr_attempts rd opn (Suc k) r n"
        using None o1 Inr by simp
      with Suc.prems None o1 Inr opn_at [of "rr_client r" "rr_offset r" c s1] show ?thesis
        by (intro step [of ?r1 c]) (auto simp: rr_at_def simp del: rr_attempts.simps)
    qed
  qed
qed (auto simp: rr_at_def)

lemma rr_reader: "ranged_reader (rr_Read rd opn) (\<lambda>content off r. content = object \<and> rr_at at object holds off r)"
  by unfold_locales (use rr_attempts_at in \<open>unfold rr_Read_def, blast\<close>)

lemma rr_calls:
  assumes "rr_at at object holds off r" and "read_calls (rr_Read rd opn) r ns = ((bs, e), r')"
  shows "take (length bs) (drop off object) = bs \<and> rr_offset r' = off + length bs \<and>
         (e = Some (Sentinel io_EOF) \<and> 0 < rr_size r \<longrightarrow> rr_size r \<le> int (off + length bs))"
proof -
  have "e = Some (Sentinel io_EOF) \<and> 0 < rr_size r \<longrightarrow> rr_size r \<le> int (off + length bs)"
    using assms
  proof (induction ns arbitrary: off r bs)
    case (Cons n ns)
    obtain b e1 r1 where rd: "rr_Read rd opn r n = ((b, e1), r1)" by (metis prod.exhaust)
    note here = rr_attempts_at [OF Cons.prems(1) rd [unfolded rr_Read_def]]
    show ?case
    proof (cases e1)
      case None
      then obtain b2 where "bs = b @ b2" "read_calls (rr_Read rd opn) r1 ns = ((b2, e), r')"
        using Cons.prems(2) rd by (auto split: prod.splits)
      with Cons.IH [of "off + length b" r1 b2] here show ?thesis by (simp add: add.assoc)
    qed (use Cons.prems(2) rd here in auto)
  qed simp
  with ranged_reader.read_calls_at [OF rr_reader, of object off r ns bs e r'] assms show ?thesis
    by (auto simp: rr_at_def)
qed

end

subsection \<open>Properties\<close>

text \<open>
  C10. No byte is lost, repeated or reordered by reconnecting: whatever the connections do (break with any
  error, end early), the bytes that the calls of \<open>Read\<close> return are a prefix of the object, the offset counts
  them, and if the object's size is known the end of file is only reported once every byte was returned.
\<close>

theorem ResumableReader_seamless:
  assumes "ranged_open rd at opn object holds" and "holds (rr_client r)" and "rr_offset r = 0" and "\<forall>c. rr_rc r = Some c \<longrightarrow> at object 0 c"
    and "rr_size r = int (length object)"
    and "read_calls (rr_Read rd opn) r ns = ((bs, e), r')"
  shows "prefix bs object \<and> rr_offset r' = length bs \<and> (e = Some (Sentinel io_EOF) \<longrightarrow> bs = object)"
proof -
  have "rr_at at object holds 0 r" using assms(2-4) by (simp add: rr_at_def)
  note calls = ranged_open.rr_calls [OF assms(1) this assms(6)]
  then have "prefix bs object" using take_is_prefix [of "length bs" object] by simp
  with calls assms(5) show ?thesis by (cases "object = []") auto
qed

definition flaky_Read :: "byte list \<times> nat \<times> nat \<Rightarrow> nat \<Rightarrow> (byte list \<times> goerr option) \<times> byte list \<times> nat \<times> nat" where
  "flaky_Read c n = (case c of (f, off, budget) \<Rightarrow>
     let bs = take (min n budget) (drop off f) in ((bs, Some (Errorf ''connection reset'')), (f, off + length bs, 0)))"

theorem ResumableReader_seamless_witness:
  "let object = [1, 2, 3, 4];
       r = \<lparr>rr_size = 4, rr_offset = 0, rr_rc = Some (object, 0, 1), rr_client = ()\<rparr>;
       res = read_calls (rr_Read flaky_Read (\<lambda>_ off. (Inr (object, off, 2), ()))) r [8, 8, 8]
   in fst (fst res) = [1, 2, 3, 4] \<and> prefix (fst (fst res)) object \<and> rr_offset (snd res) = 4"
proof -
  let ?object = "[1, 2, 3, 4] :: byte list" and ?at = "\<lambda>content off (c :: byte list \<times> nat \<times> nat). \<exists>b. c = (content, off, b)"
  let ?opn = "\<lambda>_ off. (Inr ([1, 2, 3, 4], off, 2), ())"
  let ?r = "\<lparr>rr_size = 4, rr_offset = 0, rr_rc = Some (?object, 0, 1), rr_client = ()\<rparr>"
  have loc: "ranged_open flaky_Read ?at ?opn ?object (\<lambda>_. True)"
    by unfold_locales (auto simp: flaky_Read_def Let_def take_min_length)
  have run: "read_calls (rr_Read flaky_Read ?opn) ?r [8, 8, 8] =
      (([1, 2, 3, 4], None), \<lparr>rr_size = 4, rr_offset = 4, rr_rc = None, rr_client = ()\<rparr>)"
    by code_simp
  show ?thesis
    using ResumableReader_seamless [OF loc _ _ _ _ run] run by (simp add: Let_def)
qed

end
