(* ===== verification/Client.thy ===== *)
theory Client
  imports Readers Bytes "HOL-Library.AList" "HOL-Library.Multiset"
begin

text \<open>
  The interface to a replica (\<^verbatim>\<open>src/replica_client.go\<close>): the Go interface \<^verbatim>\<open>ReplicaClient\<close> as a record of
  functions over a store state \<open>'s\<close>, the program's helpers over it, and the contract that the rest of the
  program relies on as the locale \<open>replica_client\<close>. An iterator is the list of its items and the error that
  \<^verbatim>\<open>Close\<close> reports.
\<close>

record FileInfo =
  FLevel :: int
  MinTXID :: txid
  MaxTXID :: txid
  FSize :: nat
  CreatedAt :: instant

abbreviation txid_ok :: "txid \<Rightarrow> bool" where
  "txid_ok a \<equiv> a < 2 ^ 64"

type_synonym file_key = "int \<times> txid \<times> txid"

abbreviation key :: "FileInfo \<Rightarrow> file_key" where
  "key i \<equiv> (FLevel i, MinTXID i, MaxTXID i)"

record file_iter =
  iter_items :: "FileInfo list"
  iter_err :: "goerr option"

record 's ReplicaClient =
  LTXFiles :: "'s \<Rightarrow> int \<Rightarrow> txid \<Rightarrow> bool \<Rightarrow> goerr + file_iter"
  OpenLTXFile :: "'s \<Rightarrow> int \<Rightarrow> txid \<Rightarrow> txid \<Rightarrow> int \<Rightarrow> int \<Rightarrow> goerr + stream"
  WriteLTXFile :: "'s \<Rightarrow> int \<Rightarrow> txid \<Rightarrow> txid \<Rightarrow> stream \<Rightarrow> (goerr + FileInfo) \<times> 's"
  DeleteLTXFiles :: "'s \<Rightarrow> FileInfo list \<Rightarrow> goerr option \<times> 's"
  DeleteAll :: "'s \<Rightarrow> goerr option \<times> 's"

text \<open>\<open>find_loop\<close> is the loop of \<open>FindLTXFiles\<close>; a filter returns whether the item matches and an error.\<close>

fun find_loop :: "(FileInfo \<Rightarrow> bool \<times> goerr option) \<Rightarrow> FileInfo list \<Rightarrow> FileInfo list \<times> goerr option" where
  "find_loop flt [] = ([], None)"
| "find_loop flt (item # rest) =
     (let (match, err) = flt item;
          here = (if match then [item] else [])
      in case err of
           None \<Rightarrow> (let (a, e) = find_loop flt rest in (here @ a, e))
         | Some e \<Rightarrow> if errors_Is e ErrStopIter then (here, None) else (here, Some e))"

definition FindLTXFiles ::
  "'s ReplicaClient \<Rightarrow> 's \<Rightarrow> int \<Rightarrow> bool \<Rightarrow> (FileInfo \<Rightarrow> bool \<times> goerr option) \<Rightarrow> FileInfo list \<times> goerr option" where
  "FindLTXFiles client s level useMetadata flt =
     (case LTXFiles client s level 0 useMetadata of
        Inl e \<Rightarrow> ([], Some e)
      | Inr it \<Rightarrow>
          (case find_loop flt (iter_items it) of
             (a, Some e) \<Rightarrow> (a, Some e)
           | (a, None) \<Rightarrow> (case iter_err it of Some e \<Rightarrow> ([], Some e) | None \<Rightarrow> (a, None))))"

definition ReadAll :: "stream \<Rightarrow> goerr + byte list" where
  "ReadAll rd = (case snd rd of None \<Rightarrow> Inr (fst rd) | Some e \<Rightarrow> Inl e)"

definition DefaultEstimatedPageIndexSize :: int where
  "DefaultEstimatedPageIndexSize = 32 * 1024"

text \<open>
  The end of an LTX file is the page index, its size as a big-endian 64-bit integer, and the trailer, whose
  size is a constant of the LTX library (\<open>trailer_size\<close>). Indexing before the start of the fetched bytes
  panics. The sizes are kept as integers: \<^verbatim>\<open>int(size)\<close> is the two's complement reading.
\<close>

definition fetchPageIndexData ::
  "nat \<Rightarrow> 's ReplicaClient \<Rightarrow> 's \<Rightarrow> FileInfo \<Rightarrow> goerr + stream" where
  "fetchPageIndexData trailer_size client s info =
     (let offset = max 0 (int (FSize info) - DefaultEstimatedPageIndexSize) in
      case OpenLTXFile client s (FLevel info) (MinTXID info) (MaxTXID info) offset 0 of
        Inl e \<Rightarrow> Inl (Wrapf ''open ltx file'' e)
      | Inr f \<Rightarrow>
          (case ReadAll f of
             Inl e \<Rightarrow> Inl (Wrapf ''read ltx page index'' e)
           | Inr b \<Rightarrow>
               if length b < trailer_size + 8 then Inl (Errorf ''panic: slice bounds out of range'')
               else let sz = sint (Uint64 BigEndian (drop (length b - trailer_size - 8) b));
                        off = int (length b) - sz - int trailer_size - 8
                    in if off > 0
                       then (if off > int (length b) then Inl (Errorf ''panic: slice bounds out of range'')
                             else Inr (drop (nat off) b, None))
                       else (case OpenLTXFile client s (FLevel info) (MinTXID info) (MaxTXID info)
                                    (int (FSize info) - int trailer_size - 8 - sz) 0 of
                               Inl e \<Rightarrow> Inl (Wrapf ''open ltx file'' e)
                             | Inr f \<Rightarrow> Inr f)))"

definition FetchPageIndex ::
  "nat \<Rightarrow> (stream \<Rightarrow> FileInfo \<Rightarrow> goerr + 'idx) \<Rightarrow> 's ReplicaClient \<Rightarrow> 's \<Rightarrow> FileInfo \<Rightarrow> goerr + 'idx" where
  "FetchPageIndex trailer_size DecodePageIndex client s info =
     (case fetchPageIndexData trailer_size client s info of
        Inl e \<Rightarrow> Inl e
      | Inr rc \<Rightarrow> DecodePageIndex rc info)"

definition FetchLTXHeader ::
  "nat \<Rightarrow> (stream \<Rightarrow> goerr + 'hdr) \<Rightarrow> 's ReplicaClient \<Rightarrow> 's \<Rightarrow> FileInfo \<Rightarrow> goerr + 'hdr" where
  "FetchLTXHeader header_size PeekHeader client s info =
     (case OpenLTXFile client s (FLevel info) (MinTXID info) (MaxTXID info) 0 (int header_size) of
        Inl e \<Rightarrow> Inl (Wrapf ''open ltx file'' e)
      | Inr rc \<Rightarrow> (case PeekHeader rc of Inl e \<Rightarrow> Inl (Wrapf ''peek header'' e) | Inr hdr \<Rightarrow> Inr hdr))"

definition FetchPage ::
  "(byte list \<Rightarrow> goerr + 'page) \<Rightarrow> 's ReplicaClient \<Rightarrow> 's \<Rightarrow> int \<Rightarrow> txid \<Rightarrow> txid \<Rightarrow> int \<Rightarrow> int \<Rightarrow> goerr + 'page" where
  "FetchPage DecodePageData client s level minTXID maxTXID offset sz =
     (case OpenLTXFile client s level minTXID maxTXID offset sz of
        Inl e \<Rightarrow> Inl (Wrapf ''open ltx file'' e)
      | Inr f \<Rightarrow> (case ReadAll f of Inl e \<Rightarrow> Inl (Wrapf ''read ltx page frame'' e) | Inr b \<Rightarrow> DecodePageData b))"

subsection \<open>The contract of a replica client\<close>

text \<open>
  \<open>files s\<close> is the abstract content of a store: the bytes and the creation time of each object, by level and
  transaction range. \<open>range_of\<close> is the part of an object that \<^verbatim>\<open>OpenLTXFile\<close> returns for an offset and a size.
\<close>

type_synonym objects = "file_key \<rightharpoonup> byte list \<times> instant"

definition range_of :: "int \<Rightarrow> int \<Rightarrow> byte list \<Rightarrow> byte list" where
  "range_of offset sz bs = (let tl = drop (nat offset) bs in if sz > 0 then take (nat sz) tl else tl)"

definition info_of :: "file_key \<Rightarrow> byte list \<times> instant \<Rightarrow> FileInfo" where
  "info_of k v = \<lparr>FLevel = fst k, MinTXID = fst (snd k), MaxTXID = snd (snd k), FSize = length (fst v), CreatedAt = snd v\<rparr>"

definition listing :: "objects \<Rightarrow> int \<Rightarrow> txid \<Rightarrow> FileInfo set" where
  "listing fs level seek = {info_of (level, a, b) v |a b v. fs (level, a, b) = Some v \<and> seek \<le> a}"

lemma key_info_of [simp]: "key (info_of k v) = k"
  by (simp add: info_of_def)

lemma in_listing: "i \<in> listing fs level seek \<longleftrightarrow> FLevel i = level \<and> seek \<le> MinTXID i \<and> (\<exists>v. fs (key i) = Some v \<and> i = info_of (key i) v)"
  unfolding listing_def by (auto simp: info_of_def)

lemma listing_update:
  assumes "fs (level, a, b) = None" and "seek \<le> a"
  shows "listing (fs((level, a, b) \<mapsto> v)) level seek = insert (info_of (level, a, b) v) (listing fs level seek)"
proof (rule set_eqI)
  fix i
  show "i \<in> listing (fs((level, a, b) \<mapsto> v)) level seek \<longleftrightarrow> i \<in> insert (info_of (level, a, b) v) (listing fs level seek)"
    using assms by (cases "key i = (level, a, b)") (auto simp: in_listing info_of_def)
qed

lemma listing_restrict: "listing (fs |` (- K)) level seek = {i \<in> listing fs level seek. key i \<notin> K}"
proof (intro set_eqI iffI)
  fix i assume "i \<in> listing (fs |` (- K)) level seek"
  then show "i \<in> {i \<in> listing fs level seek. key i \<notin> K}"
    by (auto simp: listing_def restrict_map_def info_of_def split: if_splits)
next
  fix i assume "i \<in> {i \<in> listing fs level seek. key i \<notin> K}"
  then obtain a b v where "i = info_of (level, a, b) v" "fs (level, a, b) = Some v" "seek \<le> a" "key i \<notin> K"
    by (auto simp: listing_def)
  then show "i \<in> listing (fs |` (- K)) level seek"
    unfolding listing_def by (intro CollectI exI [of _ a] exI [of _ b] exI [of _ v]) simp
qed

locale replica_client =
  fixes client :: "'s ReplicaClient" and files :: "'s \<Rightarrow> objects" and inv :: "'s \<Rightarrow> bool"
  assumes files_ok: "inv s \<Longrightarrow> files s (level, a, b) = Some v \<Longrightarrow> txid_ok a \<and> txid_ok b"
    and list_ok: "inv s \<Longrightarrow> LTXFiles client s level seek um = Inr it \<Longrightarrow>
      iter_err it = None \<Longrightarrow> set (iter_items it) = listing (files s) level seek"
    and list_sub: "inv s \<Longrightarrow> LTXFiles client s level seek um = Inr it \<Longrightarrow> set (iter_items it) \<subseteq> listing (files s) level seek"
    and list_sorted: "inv s \<Longrightarrow> LTXFiles client s level seek um = Inr it \<Longrightarrow>
      sorted (map MinTXID (iter_items it)) \<and> distinct (iter_items it)"
    and open_ok: "inv s \<Longrightarrow> txid_ok a \<Longrightarrow> txid_ok b \<Longrightarrow> OpenLTXFile client s level a b offset sz = Inr (bs, None) \<Longrightarrow>
      \<exists>c ts. files s (level, a, b) = Some (c, ts) \<and> bs = range_of offset sz c"
    and open_missing: "inv s \<Longrightarrow> txid_ok a \<Longrightarrow> txid_ok b \<Longrightarrow> files s (level, a, b) = None \<Longrightarrow> \<exists>e. OpenLTXFile client s level a b offset sz = Inl e"
    and write_ok: "inv s \<Longrightarrow> txid_ok a \<Longrightarrow> txid_ok b \<Longrightarrow> WriteLTXFile client s level a b (bs, rerr) = (Inr info, s') \<Longrightarrow>
      inv s' \<and> rerr = None \<and> key info = (level, a, b) \<and> FSize info = length bs \<and>
      files s' = (files s)((level, a, b) \<mapsto> (bs, CreatedAt info))"
    and write_err: "inv s \<Longrightarrow> txid_ok a \<Longrightarrow> txid_ok b \<Longrightarrow> WriteLTXFile client s level a b rd = (Inl e, s') \<Longrightarrow>
      inv s' \<and> (\<forall>k. k \<noteq> (level, a, b) \<longrightarrow> files s' k = files s k)"
    and delete_ok: "inv s \<Longrightarrow> (\<forall>i\<in>set infos. txid_ok (MinTXID i) \<and> txid_ok (MaxTXID i)) \<Longrightarrow>
      DeleteLTXFiles client s infos = (None, s') \<Longrightarrow> inv s' \<and> files s' = (files s) |` (- key ` set infos)"
    and delete_err: "inv s \<Longrightarrow> (\<forall>i\<in>set infos. txid_ok (MinTXID i) \<and> txid_ok (MaxTXID i)) \<Longrightarrow>
      DeleteLTXFiles client s infos = (Some e, s') \<Longrightarrow>
      inv s' \<and> (\<exists>deleted. prefix deleted infos \<and> files s' = (files s) |` (- key ` set deleted))"
begin

lemma list_items_any:
  assumes "inv s" "LTXFiles client s level seek um = Inr it" "i \<in> set (iter_items it)"
  shows "FLevel i = level \<and> txid_ok (MinTXID i) \<and> txid_ok (MaxTXID i) \<and> seek \<le> MinTXID i \<and>
         (\<exists>bs. files s (key i) = Some (bs, CreatedAt i) \<and> FSize i = length bs)"
proof -
  obtain a b v where "i = info_of (level, a, b) v" "files s (level, a, b) = Some v" "seek \<le> a"
    using list_sub [OF assms(1,2)] assms(3) by (auto simp: listing_def)
  with files_ok [OF assms(1)] show ?thesis by (cases v) (auto simp: info_of_def)
qed

lemma list_items:
  assumes "inv s" "LTXFiles client s level seek um = Inr it" "iter_err it = None" "i \<in> set (iter_items it)"
  shows "FLevel i = level \<and> txid_ok (MinTXID i) \<and> txid_ok (MaxTXID i) \<and> seek \<le> MinTXID i \<and>
         (\<exists>bs. files s (key i) = Some (bs, CreatedAt i) \<and> FSize i = length bs)"
  using list_items_any [OF assms(1,2,4)] .

lemma list_complete:
  assumes "inv s" "LTXFiles client s level seek um = Inr it" "iter_err it = None" "files s (level, a, b) = Some v" "seek \<le> a"
  shows "info_of (level, a, b) v \<in> set (iter_items it)"
  unfolding list_ok [OF assms(1-3)] listing_def using assms(4,5) by blast

lemma write_then_open:
  assumes "inv s" "txid_ok a" "txid_ok b" "WriteLTXFile client s level a b (bs, rerr) = (Inr info, s')"
    and "OpenLTXFile client s' level a b 0 0 = Inr (out, None)"
  shows "out = bs"
  using write_ok [OF assms(1-4)] open_ok [of s' a b level 0 0 out] assms(2,3,5) by (auto simp: range_of_def)

lemma write_then_list:
  assumes "inv s" "txid_ok a" "txid_ok b" "WriteLTXFile client s level a b (bs, rerr) = (Inr info, s')"
    and "LTXFiles client s' level seek um = Inr it" "iter_err it = None" "seek \<le> a"
  shows "info \<in> set (iter_items it)"
proof -
  note w = write_ok [OF assms(1-4)]
  have "info = info_of (level, a, b) (bs, CreatedAt info)" using w by (cases info) (auto simp: info_of_def)
  then show ?thesis using list_ok [of s' level seek um it] w assms(5-7) by (auto simp: listing_def)
qed

lemma delete_then_list:
  assumes "inv s" "\<forall>i\<in>set infos. txid_ok (MinTXID i) \<and> txid_ok (MaxTXID i)" "DeleteLTXFiles client s infos = (None, s')"
    and "LTXFiles client s' level seek um = Inr it" "iter_err it = None"
  shows "set (iter_items it) = {i \<in> listing (files s) level seek. key i \<notin> key ` set infos}"
proof -
  note d = delete_ok [OF assms(1-3)]
  have "set (iter_items it) = listing (files s') level seek" using list_ok [of s' level seek um it] d assms by auto
  also have "\<dots> = {i \<in> listing (files s) level seek. key i \<notin> key ` set infos}"
    using d by (simp only: listing_restrict)
  finally show ?thesis .
qed

lemma fetchPageIndexData_suffix:
  assumes "inv s" and ok: "txid_ok (MinTXID info)" "txid_ok (MaxTXID info)"
    and obj: "files s (key info) = Some (body @ idx @ PutUint64 BigEndian (of_nat (length idx)) @ trailer, ts)"
    and "length trailer = trailer_size" and "length idx < 2 ^ 63"
    and "FSize info = length body + length idx + 8 + trailer_size"
    and "fetchPageIndexData trailer_size client s info = Inr (bs, None)"
  shows "bs = idx @ PutUint64 BigEndian (of_nat (length idx)) @ trailer"
proof -
  let ?n = "PutUint64 BigEndian (of_nat (length idx))" and ?off = "max 0 (int (FSize info) - DefaultEstimatedPageIndexSize)"
  let ?obj = "body @ idx @ ?n @ trailer"
  obtain b rerr where o1: "OpenLTXFile client s (FLevel info) (MinTXID info) (MaxTXID info) ?off 0 = Inr (b, rerr)"
    and re: "rerr = None"
    using assms(8) by (auto simp: fetchPageIndexData_def ReadAll_def Let_def split: sum.splits option.splits)
  have b: "b = drop (nat ?off) ?obj"
    using open_ok [OF assms(1) ok] o1 re obj by (fastforce simp: range_of_def)
  define k where "k = nat ?off"
  have k: "k \<le> length ?obj" "int k = ?off" using assms(5,7) by (auto simp: k_def DefaultEstimatedPageIndexSize_def)
  have lb: "trailer_size + 8 \<le> length b"
    using assms(8) o1 re by (auto simp: fetchPageIndexData_def ReadAll_def Let_def split: if_splits)
  have "drop (length b - trailer_size - 8) b = drop (length body + length idx) ?obj"
    using lb k(1) assms(5) by (simp add: b k_def [symmetric] add.commute del: drop_append)
  then have sz: "sint (Uint64 BigEndian (drop (length b - trailer_size - 8) b)) = int (length idx)"
    using assms(6) by (simp add: signed_of_nat signed_take_bit_int_eq_self)
  let ?at = "int (length b) - int (length idx) - int trailer_size - 8"
  have at: "?at = int (length body) - int k"
    using lb k(1) assms(5) by (simp add: b k_def [symmetric])
  have tail: "drop (length body) ?obj = idx @ ?n @ trailer" by simp
  have fs: "int (FSize info) - int trailer_size - 8 - int (length idx) = int (length body)" using assms(7) by simp
  have run: "(if ?at > 0 then (if ?at > int (length b) then Inl (Errorf ''panic: slice bounds out of range'') else Inr (drop (nat ?at) b, None))
     else case OpenLTXFile client s (FLevel info) (MinTXID info) (MaxTXID info)
                 (int (FSize info) - int trailer_size - 8 - int (length idx)) 0 of
            Inl e \<Rightarrow> Inl (Wrapf ''open ltx file'' e) | Inr f \<Rightarrow> Inr f) = Inr (bs, None)"
    using assms(8) lb by (simp add: fetchPageIndexData_def o1 re ReadAll_def Let_def sz [unfolded diff_diff_left] split: if_splits)
  show ?thesis
  proof (cases "?at > 0")
    case True
    then have "bs = drop (nat ?at) b" using run by (auto split: if_splits)
    also have "\<dots> = drop (length body) ?obj" using True at by (simp add: b k_def [symmetric] del: drop_append) (simp add: at)
    finally show ?thesis using tail by simp
  next
    case False
    then have "OpenLTXFile client s (FLevel info) (MinTXID info) (MaxTXID info) (int (length body)) 0 = Inr (bs, None)"
      using run unfolding fs by (auto split: sum.splits)
    with open_ok [OF assms(1) ok] obj tail show ?thesis by (fastforce simp: range_of_def)
  qed
qed

end

end
