(* ===== verification/Hex.thy ===== *)
theory Hex
  imports Prelude
begin

text \<open>
  Hexadecimal text, as \<^verbatim>\<open>fmt.Sprintf("%0wx")\<close> prints it and \<^verbatim>\<open>strconv.ParseUint(s, 16, bits)\<close> reads it. File
  names, generation identifiers and the TXID sidecar file are written with it.
\<close>

definition hex_digit :: "nat \<Rightarrow> char" where
  "hex_digit n = ''0123456789abcdef'' ! n"

fun to_hex :: "nat \<Rightarrow> string" where
  "to_hex n = (if n < 16 then [hex_digit n] else to_hex (n div 16) @ [hex_digit (n mod 16)])"

declare to_hex.simps [simp del]

definition fmt_hex :: "nat \<Rightarrow> nat \<Rightarrow> string" where
  "fmt_hex w n = (let s = to_hex n in replicate (w - length s) CHR ''0'' @ s)"

definition char_index :: "char \<Rightarrow> string \<Rightarrow> nat option" where
  "char_index c cs = map_of (zip cs [0..<length cs]) c"

definition hex_val :: "char \<Rightarrow> nat option" where
  "hex_val c = (case char_index c ''0123456789abcdef'' of
                  Some v \<Rightarrow> Some v
                | None \<Rightarrow> map_option (\<lambda>v. v + 10) (char_index c ''ABCDEF''))"

fun hex_fold :: "nat \<Rightarrow> string \<Rightarrow> nat option" where
  "hex_fold acc [] = Some acc"
| "hex_fold acc (c # cs) = (case hex_val c of None \<Rightarrow> None | Some v \<Rightarrow> hex_fold (acc * 16 + v) cs)"

definition ParseUint_hex :: "nat \<Rightarrow> string \<Rightarrow> nat option" where
  "ParseUint_hex bits s =
     (if s = [] then None
      else case hex_fold 0 s of None \<Rightarrow> None | Some n \<Rightarrow> if int n < 2 ^ bits then Some n else None)"

subsection \<open>Round trip\<close>

lemma hex_val_digit [simp]: "n < 16 \<Longrightarrow> hex_val (hex_digit n) = Some n"
proof -
  have "\<forall>n\<in>{0..<16}. hex_val (hex_digit n) = Some n" by code_simp
  then show "n < 16 \<Longrightarrow> hex_val (hex_digit n) = Some n" by simp
qed

lemma hex_val_zero [simp]: "hex_val (CHR ''0'') = Some 0"
  by code_simp

lemma hex_fold_append: "hex_fold acc (a @ b) = (case hex_fold acc a of None \<Rightarrow> None | Some n \<Rightarrow> hex_fold n b)"
  by (induction a arbitrary: acc) (auto split: option.splits)

lemma hex_fold_zeros [simp]: "hex_fold 0 (replicate k (CHR ''0'') @ s) = hex_fold 0 s"
  by (induction k) auto

lemma to_hex_not_Nil [simp]: "to_hex n \<noteq> []"
  by (subst to_hex.simps) simp

lemma hex_fold_to_hex [simp]: "hex_fold 0 (to_hex n) = Some n"
proof (induction n rule: to_hex.induct)
  case (1 n)
  then show ?case by (subst to_hex.simps) (auto simp: hex_fold_append)
qed

lemma ParseUint_fmt [simp]: "n < 2 ^ bits \<Longrightarrow> ParseUint_hex bits (fmt_hex w n) = Some n"
proof -
  assume "n < 2 ^ bits"
  then have "int n < 2 ^ bits" by (metis of_nat_less_iff of_nat_numeral of_nat_power)
  then show "ParseUint_hex bits (fmt_hex w n) = Some n" by (simp add: ParseUint_hex_def fmt_hex_def Let_def)
qed

lemma length_to_hex: "n < 16 ^ w \<Longrightarrow> 0 < w \<Longrightarrow> length (to_hex n) \<le> w"
proof (induction n arbitrary: w rule: to_hex.induct)
  case (1 n)
  show ?case
  proof (cases "n < 16")
    case False
    then obtain v where "w = Suc v" "0 < v" using 1(2,3) by (cases w; cases "w = 1") auto
    moreover from this have "n div 16 < 16 ^ v" using 1(2) by (simp add: less_mult_imp_div_less mult.commute)
    ultimately show ?thesis using 1(1) [OF False, of v] False by (subst to_hex.simps) simp
  qed (use 1(3) in \<open>subst to_hex.simps, simp\<close>)
qed

lemma length_fmt_hex [simp]: "n < 16 ^ w \<Longrightarrow> 0 < w \<Longrightarrow> length (fmt_hex w n) = w"
  using length_to_hex [of n w] by (simp add: fmt_hex_def Let_def)

lemma hex_digit_neq: "n < 16 \<Longrightarrow> hex_val c = None \<Longrightarrow> hex_digit n \<noteq> c"
  by auto

lemma hex_val_in_fmt: "c \<in> set (fmt_hex w n) \<Longrightarrow> hex_val c \<noteq> None"
proof -
  have "c \<in> set (to_hex n) \<Longrightarrow> hex_val c \<noteq> None"
    by (induction n rule: to_hex.induct) (subst (asm) (2) to_hex.simps, auto split: if_splits)
  then show "c \<in> set (fmt_hex w n) \<Longrightarrow> hex_val c \<noteq> None"
    by (auto simp: fmt_hex_def Let_def split: if_splits)
qed

end
