(* ===== verification/FileClient.thy ===== *)
theory FileClient
  imports Client Hex
begin

text \<open>
  The file replica client (\<^verbatim>\<open>src/file/replica_client.go\<close>) on a model of the file system: one directory per
  level, a file is its bytes and its modification time. Every system call may fail (\<open>fault\<close>).

  \<^verbatim>\<open>ltx.FormatFilename\<close>, \<^verbatim>\<open>ltx.ParseFilename\<close> and \<^verbatim>\<open>ltx.NewFileInfoSliceIterator\<close> are functions of the LTX
  library; they are arguments (\<open>fmt\<close>, \<open>prs\<close>, \<open>itr\<close>), with what the code relies on in the locale \<open>ltx_lib\<close>.
  The file names are the ones of \<^verbatim>\<open>src/docs/LTX_FORMAT.md\<close>.
\<close>

subsection \<open>The file system\<close>

datatype fs_call =
    SysOpenDir int | SysReaddir int | SysOpen int string | SysSeek int string | SysMkdirAll int
  | SysCreate int string | SysWrite int string | SysSync int string | SysStat int string | SysClose int string
  | SysRename int string | SysChtimes int string | SysRemove int string | SysRemoveAll

type_synonym fs_file = "byte list \<times> instant"

record filesys =
  dirs :: "(int \<times> (string \<times> fs_file) list) list"
  fault :: "fs_call \<Rightarrow> goerr option"

definition dir_of :: "filesys \<Rightarrow> int \<Rightarrow> (string \<times> fs_file) list" where
  "dir_of s level = (case map_of (dirs s) level of None \<Rightarrow> [] | Some d \<Rightarrow> d)"

definition set_dir :: "filesys \<Rightarrow> int \<Rightarrow> (string \<times> fs_file) list \<Rightarrow> filesys" where
  "set_dir s level d = s\<lparr>dirs := AList.update level d (dirs s)\<rparr>"

definition put_file :: "filesys \<Rightarrow> int \<Rightarrow> string \<Rightarrow> fs_file \<Rightarrow> filesys" where
  "put_file s level name f = set_dir s level (AList.update name f (dir_of s level))"

definition remove_file :: "filesys \<Rightarrow> int \<Rightarrow> string \<Rightarrow> filesys" where
  "remove_file s level name =
     (if map_of (dirs s) level = None then s else set_dir s level (AList.delete name (dir_of s level)))"

fun first_fault :: "filesys \<Rightarrow> fs_call list \<Rightarrow> goerr option" where
  "first_fault s [] = None"
| "first_fault s (c # cs) = (case fault s c of Some e \<Rightarrow> Some e | None \<Rightarrow> first_fault s cs)"

definition os_Remove :: "filesys \<Rightarrow> int \<Rightarrow> string \<Rightarrow> goerr option \<times> filesys" where
  "os_Remove s level name =
     (case fault s (SysRemove level name) of
        Some e \<Rightarrow> (Some e, s)
      | None \<Rightarrow> (case map_of (dir_of s level) name of
                   None \<Rightarrow> (Some (PathError ''remove'' (Sentinel os_ErrNotExist)), s)
                 | Some _ \<Rightarrow> (None, remove_file s level name)))"

definition MkdirAll :: "filesys \<Rightarrow> int \<Rightarrow> goerr option \<times> filesys" where
  "MkdirAll s level =
     (case fault s (SysMkdirAll level) of
        Some e \<Rightarrow> (Some e, s)
      | None \<Rightarrow> (None, set_dir s level (dir_of s level)))"

subsection \<open>The client\<close>

definition tmp_name :: "string \<Rightarrow> string" where
  "tmp_name filename = filename @ ''.tmp''"

definition file_infos :: "(string \<Rightarrow> (txid \<times> txid) option) \<Rightarrow> int \<Rightarrow> txid \<Rightarrow> (string \<times> fs_file) list \<Rightarrow> FileInfo list" where
  "file_infos prs level seek fis =
     List.map_filter (\<lambda>(name, bs, mtime).
        case prs name of
          None \<Rightarrow> None
        | Some (minTXID, maxTXID) \<Rightarrow>
            if minTXID < seek then None
            else Some \<lparr>FLevel = level, MinTXID = minTXID, MaxTXID = maxTXID, FSize = length bs, CreatedAt = mtime\<rparr>) fis"

definition file_LTXFiles ::
  "(string \<Rightarrow> (txid \<times> txid) option) \<Rightarrow> (FileInfo list \<Rightarrow> FileInfo list) \<Rightarrow> filesys \<Rightarrow> int \<Rightarrow> txid \<Rightarrow> bool \<Rightarrow> goerr + file_iter" where
  "file_LTXFiles prs itr s level seek useMetadata =
     (case (case fault s (SysOpenDir level) of
              Some e \<Rightarrow> Some e
            | None \<Rightarrow> if map_of (dirs s) level = None then Some (PathError ''open'' (Sentinel os_ErrNotExist)) else None) of
        Some e \<Rightarrow> if os_IsNotExist e then Inr \<lparr>iter_items = itr [], iter_err = None\<rparr> else Inl e
      | None \<Rightarrow>
          (case fault s (SysReaddir level) of
             Some e \<Rightarrow> Inl e
           | None \<Rightarrow> Inr \<lparr>iter_items = itr (file_infos prs level seek (dir_of s level)), iter_err = None\<rparr>))"

definition file_OpenLTXFile ::
  "(txid \<Rightarrow> txid \<Rightarrow> string) \<Rightarrow> filesys \<Rightarrow> int \<Rightarrow> txid \<Rightarrow> txid \<Rightarrow> int \<Rightarrow> int \<Rightarrow> goerr + stream" where
  "file_OpenLTXFile fmt s level minTXID maxTXID offset sz =
     (let name = fmt minTXID maxTXID in
      case (case fault s (SysOpen level name) of
              Some e \<Rightarrow> Inl e
            | None \<Rightarrow> (case map_of (dir_of s level) name of
                         None \<Rightarrow> Inl (PathError ''open'' (Sentinel os_ErrNotExist))
                       | Some f \<Rightarrow> Inr f)) of
        Inl e \<Rightarrow> Inl (NewLTXError ''open'' level minTXID maxTXID e)
      | Inr (bs, _) \<Rightarrow>
          (case (if offset > 0 then fault s (SysSeek level name) else None) of
             Some e \<Rightarrow> Inl e
           | None \<Rightarrow> let rest = (if offset > 0 then drop (nat offset) bs else bs)
                     in Inr (if sz > 0 then take (nat sz) rest else rest, None)))"

text \<open>
  \<open>WriteLTXFile\<close>: the temporary file is created next to the destination, filled, synced, closed and renamed;
  an error before the rename removes it again. The times are set after the rename.
\<close>

definition file_WriteLTXFile ::
  "(txid \<Rightarrow> txid \<Rightarrow> string) \<Rightarrow> peek_header \<Rightarrow> instant \<Rightarrow> filesys \<Rightarrow> int \<Rightarrow> txid \<Rightarrow> txid \<Rightarrow> stream \<Rightarrow>
   (goerr + FileInfo) \<times> filesys" where
  "file_WriteLTXFile fmt PeekHeader now s level minTXID maxTXID rd =
     (case ExtractLTXTimestamp PeekHeader now rd of
        (Inl e, _) \<Rightarrow> (Inl e, s)
      | (Inr timestamp, fullReader) \<Rightarrow>
          let filename = fmt minTXID maxTXID; tmpFilename = tmp_name filename in
          (case MkdirAll s level of
             (Some e, s) \<Rightarrow> (Inl e, s)
           | (None, s) \<Rightarrow>
               (case fault s (SysCreate level tmpFilename) of
                  Some e \<Rightarrow> (Inl e, s)
                | None \<Rightarrow>
                    let s = put_file s level tmpFilename (fst fullReader, now) in
                    (case (case snd fullReader of
                             Some e \<Rightarrow> Some e
                           | None \<Rightarrow> first_fault s (map (\<lambda>c. c level tmpFilename) [SysWrite, SysSync, SysStat, SysClose, SysRename])) of
                       Some e \<Rightarrow> (Inl e, snd (os_Remove s level tmpFilename))
                     | None \<Rightarrow>
                         let s = put_file (remove_file s level tmpFilename) level filename (fst fullReader, now) in
                         (case fault s (SysChtimes level filename) of
                            Some e \<Rightarrow> (Inl e, snd (os_Remove s level tmpFilename))
                          | None \<Rightarrow>
                              (Inr \<lparr>FLevel = level, MinTXID = minTXID, MaxTXID = maxTXID,
                                    FSize = length (fst fullReader), CreatedAt = timestamp\<rparr>,
                               put_file s level filename (fst fullReader, timestamp)))))))"

fun file_DeleteLTXFiles :: "(txid \<Rightarrow> txid \<Rightarrow> string) \<Rightarrow> filesys \<Rightarrow> FileInfo list \<Rightarrow> goerr option \<times> filesys" where
  "file_DeleteLTXFiles fmt s [] = (None, s)"
| "file_DeleteLTXFiles fmt s (info # a) =
     (case os_Remove s (FLevel info) (fmt (MinTXID info) (MaxTXID info)) of
        (Some e, s') \<Rightarrow> if \<not> os_IsNotExist e then (Some e, s') else file_DeleteLTXFiles fmt s' a
      | (None, s') \<Rightarrow> file_DeleteLTXFiles fmt s' a)"

definition file_DeleteAll :: "filesys \<Rightarrow> goerr option \<times> filesys" where
  "file_DeleteAll s =
     (case fault s SysRemoveAll of
        Some e \<Rightarrow> (if \<not> os_IsNotExist e then Some e else None, s)
      | None \<Rightarrow> (None, s\<lparr>dirs := []\<rparr>))"

definition file_client ::
  "(txid \<Rightarrow> txid \<Rightarrow> string) \<Rightarrow> (string \<Rightarrow> (txid \<times> txid) option) \<Rightarrow> (FileInfo list \<Rightarrow> FileInfo list) \<Rightarrow>
   peek_header \<Rightarrow> instant \<Rightarrow> filesys ReplicaClient" where
  "file_client fmt prs itr pk now =
     \<lparr>LTXFiles = file_LTXFiles prs itr, OpenLTXFile = file_OpenLTXFile fmt,
      WriteLTXFile = file_WriteLTXFile fmt pk now, DeleteLTXFiles = file_DeleteLTXFiles fmt,
      DeleteAll = file_DeleteAll\<rparr>"

subsection \<open>The contract holds\<close>

text \<open>
  The abstract content of the file system, and its invariant: names are unique, a name that parses is the
  name of a transaction range, and a failing call does not pretend that an existing file is missing.
\<close>

definition file_objects :: "(txid \<Rightarrow> txid \<Rightarrow> string) \<Rightarrow> filesys \<Rightarrow> objects" where
  "file_objects fmt s = (\<lambda>(level, a, b). if txid_ok a \<and> txid_ok b then map_of (dir_of s level) (fmt a b) else None)"

definition name_ok :: "(txid \<Rightarrow> txid \<Rightarrow> string) \<Rightarrow> (string \<Rightarrow> (txid \<times> txid) option) \<Rightarrow> string \<Rightarrow> bool" where
  "name_ok fmt prs nm \<longleftrightarrow> (\<forall>a b. prs nm = Some (a, b) \<longrightarrow> txid_ok a \<and> txid_ok b \<and> nm = fmt a b)"

definition fs_inv :: "(txid \<Rightarrow> txid \<Rightarrow> string) \<Rightarrow> (string \<Rightarrow> (txid \<times> txid) option) \<Rightarrow> filesys \<Rightarrow> bool" where
  "fs_inv fmt prs s \<longleftrightarrow>
     distinct (map fst (dirs s)) \<and>
     (\<forall>(l, d)\<in>set (dirs s). distinct (map fst d) \<and> (\<forall>(nm, f)\<in>set d. name_ok fmt prs nm)) \<and>
     (\<forall>c e. fault s c = Some e \<longrightarrow> \<not> os_IsNotExist e)"

lemma set_update_subset: "x \<in> set (AList.update k v xs) \<Longrightarrow> x = (k, v) \<or> x \<in> set xs"
  by (induction xs) (auto split: if_splits)

lemma dir_of_missing: "map_of (dirs s) l = None \<Longrightarrow> dir_of s l = []"
  by (simp add: dir_of_def)

lemma dir_of_set_dir [simp]: "dir_of (set_dir s l d) l' = (if l' = l then d else dir_of s l')"
  by (simp add: dir_of_def set_dir_def update_conv')

lemma fault_set_dir [simp]: "fault (set_dir s l d) = fault s"
  by (simp add: set_dir_def)

lemma map_of_put_file [simp]:
  "map_of (dir_of (put_file s l nm f) l') nm' = (if l' = l \<and> nm' = nm then Some f else map_of (dir_of s l') nm')"
  by (simp add: put_file_def update_conv')

lemma map_of_remove_file [simp]:
  "map_of (dir_of (remove_file s l nm) l') nm' = (if l' = l \<and> nm' = nm then None else map_of (dir_of s l') nm')"
  using dir_of_missing [of s l] by (auto simp: remove_file_def delete_conv')

lemma fault_put_remove [simp]: "fault (put_file s l nm f) = fault s" "fault (remove_file s l nm) = fault s"
  by (simp_all add: put_file_def remove_file_def)

lemma fs_inv_dir_of:
  assumes "fs_inv fmt prs s"
  shows "distinct (map fst (dir_of s l))" and "(nm, f) \<in> set (dir_of s l) \<Longrightarrow> name_ok fmt prs nm"
  using assms by (auto simp: fs_inv_def dir_of_def split: option.splits dest!: map_of_SomeD)

lemma fs_inv_set_dir:
  assumes "fs_inv fmt prs s" and "distinct (map fst d)" and "\<forall>(nm, f)\<in>set d. name_ok fmt prs nm"
  shows "fs_inv fmt prs (set_dir s l d)"
  using assms set_update_subset [of _ l d "dirs s"]
  by (fastforce simp: fs_inv_def set_dir_def distinct_update)

lemma fs_inv_put_file: "fs_inv fmt prs s \<Longrightarrow> name_ok fmt prs nm \<Longrightarrow> fs_inv fmt prs (put_file s l nm f)"
  unfolding put_file_def
  by (rule fs_inv_set_dir) (auto simp: distinct_update fs_inv_dir_of dest!: set_update_subset)

lemma fs_inv_remove_file: "fs_inv fmt prs s \<Longrightarrow> fs_inv fmt prs (remove_file s l nm)"
  unfolding remove_file_def
  by (auto intro!: fs_inv_set_dir simp: distinct_delete fs_inv_dir_of AList.delete_eq distinct_map_filter)

lemma file_infos_Nil [simp]: "file_infos prs l seek [] = []"
  by (simp add: file_infos_def map_filter_simps)

lemma in_file_infos:
  "i \<in> set (file_infos prs l seek d) \<longleftrightarrow>
   (\<exists>nm bs mt a b. (nm, bs, mt) \<in> set d \<and> prs nm = Some (a, b) \<and> seek \<le> a \<and> i = info_of (l, a, b) (bs, mt))"
  (is "?l \<longleftrightarrow> ?r")
proof
  show "?l \<Longrightarrow> ?r"
    by (fastforce simp: file_infos_def map_filter_def info_of_def split: option.splits if_splits)
next
  assume ?r
  then obtain nm bs mt a b where "(nm, bs, mt) \<in> set d" "prs nm = Some (a, b)" "seek \<le> a" "i = info_of (l, a, b) (bs, mt)"
    by blast
  then show ?l
    unfolding file_infos_def map_filter_def set_map set_filter
    by (intro image_eqI [of _ _ "(nm, bs, mt)"]) (auto simp: info_of_def)
qed

text \<open>What the client relies on of the LTX library.\<close>

locale ltx_lib =
  fixes fmt :: "txid \<Rightarrow> txid \<Rightarrow> string" and prs :: "string \<Rightarrow> (txid \<times> txid) option"
    and itr :: "FileInfo list \<Rightarrow> FileInfo list" and pk :: peek_header
  assumes prs_fmt: "txid_ok a \<Longrightarrow> txid_ok b \<Longrightarrow> prs (fmt a b) = Some (a, b)"
    and prs_tmp: "prs (nm @ ''.tmp'') = None"
    and itr_mset: "mset (itr infos) = mset infos"
    and itr_sorted: "sorted (map MinTXID (itr infos))"
    and peek_replays: "pk rd = (Inr ts, rd') \<Longrightarrow> rd' = rd"
begin

lemma name_ok_fmt: "txid_ok a \<Longrightarrow> txid_ok b \<Longrightarrow> name_ok fmt prs (fmt a b)"
  by (simp add: name_ok_def prs_fmt)

lemma name_ok_tmp: "name_ok fmt prs (tmp_name nm)"
  by (simp add: name_ok_def prs_tmp tmp_name_def)

lemma fmt_inj: "txid_ok a \<Longrightarrow> txid_ok b \<Longrightarrow> txid_ok a' \<Longrightarrow> txid_ok b' \<Longrightarrow> fmt a b = fmt a' b' \<longleftrightarrow> a = a' \<and> b = b'"
  by (metis Pair_inject option.inject prs_fmt)

lemma fmt_neq_tmp: "txid_ok a \<Longrightarrow> txid_ok b \<Longrightarrow> fmt a b \<noteq> tmp_name nm"
  by (metis option.distinct(1) prs_fmt prs_tmp tmp_name_def)

lemma objects_put:
  "txid_ok a \<Longrightarrow> txid_ok b \<Longrightarrow> file_objects fmt (put_file s l (fmt a b) f) = (file_objects fmt s)((l, a, b) \<mapsto> f)"
  by (auto simp: file_objects_def fmt_inj)

lemma objects_put_tmp [simp]: "file_objects fmt (put_file s l (tmp_name nm) f) = file_objects fmt s"
  by (auto simp: file_objects_def fmt_neq_tmp fun_eq_iff)

lemma objects_remove:
  "txid_ok a \<Longrightarrow> txid_ok b \<Longrightarrow> file_objects fmt (remove_file s l (fmt a b)) = (file_objects fmt s)((l, a, b) := None)"
  by (auto simp: file_objects_def fmt_inj)

lemma objects_missing: "map_of (dir_of s l) (fmt a b) = None \<Longrightarrow> (file_objects fmt s)((l, a, b) := None) = file_objects fmt s"
  by (rule fun_upd_idem) (simp add: file_objects_def)

lemma objects_remove_tmp [simp]: "file_objects fmt (remove_file s l (tmp_name nm)) = file_objects fmt s"
  by (auto simp: file_objects_def fmt_neq_tmp fun_eq_iff)

lemma objects_set_dir_same [simp]: "file_objects fmt (set_dir s l (dir_of s l)) = file_objects fmt s"
  by (auto simp: file_objects_def)

lemma os_Remove_tmp:
  "fs_inv fmt prs s \<Longrightarrow> fs_inv fmt prs (snd (os_Remove s l (tmp_name nm)))"
  "file_objects fmt (snd (os_Remove s l (tmp_name nm))) = file_objects fmt s"
  by (auto simp: os_Remove_def fs_inv_remove_file split: option.splits)

lemma file_infos_listing:
  assumes "fs_inv fmt prs s"
  shows "set (file_infos prs l seek (dir_of s l)) = listing (file_objects fmt s) l seek"
proof (intro set_eqI iffI)
  fix i assume "i \<in> set (file_infos prs l seek (dir_of s l))"
  then obtain nm bs mt a b where h: "(nm, bs, mt) \<in> set (dir_of s l)" "prs nm = Some (a, b)" "seek \<le> a"
      "i = info_of (l, a, b) (bs, mt)"
    unfolding in_file_infos by blast
  moreover from this have "txid_ok a" "txid_ok b" "nm = fmt a b"
    using fs_inv_dir_of(2) [OF assms h(1)] by (auto simp: name_ok_def)
  ultimately have "file_objects fmt s (l, a, b) = Some (bs, mt)"
    using fs_inv_dir_of(1) [OF assms] by (auto simp: file_objects_def)
  with h show "i \<in> listing (file_objects fmt s) l seek" unfolding listing_def by blast
next
  fix i assume "i \<in> listing (file_objects fmt s) l seek"
  then obtain a b bs mt where h: "file_objects fmt s (l, a, b) = Some (bs, mt)" "seek \<le> a" "i = info_of (l, a, b) (bs, mt)"
    by (auto simp: listing_def)
  then have "prs (fmt a b) = Some (a, b)" "(fmt a b, bs, mt) \<in> set (dir_of s l)"
    by (auto simp: file_objects_def prs_fmt split: if_splits dest: map_of_SomeD)
  with h show "i \<in> set (file_infos prs l seek (dir_of s l))"
    unfolding in_file_infos by blast
qed

lemma file_infos_distinct:
  assumes "distinct (map fst d)" and "\<forall>(nm, f)\<in>set d. name_ok fmt prs nm"
  shows "distinct (map key (file_infos prs l seek d))"
  using assms
proof (induction d)
  case (Cons x d)
  obtain nm bs mt where x: "x = (nm, bs, mt)" by (metis prod.exhaust)
  have no: "(l, a, b) \<notin> key ` set (file_infos prs l seek d)" if ab: "prs nm = Some (a, b)" for a b
  proof
    assume "(l, a, b) \<in> key ` set (file_infos prs l seek d)"
    then obtain i where i: "i \<in> set (file_infos prs l seek d)" "key i = (l, a, b)" by force
    then obtain nm' bs' mt' a' b' where j: "(nm', bs', mt') \<in> set d" "prs nm' = Some (a', b')" "i = info_of (l, a', b') (bs', mt')"
      unfolding in_file_infos by blast
    with i(2) have "(nm', bs', mt') \<in> set d" "prs nm' = Some (a, b)" by simp_all
    moreover have "nm' = fmt a b" "nm = fmt a b" using calculation ab Cons.prems(2) x by (auto simp: name_ok_def)
    ultimately show False using Cons.prems(1) x by (force simp: image_iff)
  qed
  have "file_infos prs l seek (x # d) = file_infos prs l seek d \<or>
    (\<exists>a b. prs nm = Some (a, b) \<and> file_infos prs l seek (x # d) = info_of (l, a, b) (bs, mt) # file_infos prs l seek d)"
    by (auto simp: file_infos_def map_filter_simps x info_of_def split: option.splits)
  moreover have "distinct (map key (file_infos prs l seek d))" using Cons by simp
  ultimately show ?case using no by (elim disjE exE conjE) simp_all
qed (simp add: file_infos_def map_filter_simps)

lemma LTXFiles_law:
  assumes "fs_inv fmt prs s" and "file_LTXFiles prs itr s l seek um = Inr it"
  shows "set (iter_items it) = listing (file_objects fmt s) l seek \<and> sorted (map MinTXID (iter_items it)) \<and>
         distinct (iter_items it) \<and> iter_err it = None"
proof -
  have it: "iter_items it = itr (file_infos prs l seek (dir_of s l))" "iter_err it = None"
    using assms fs_inv_def [of fmt prs s] dir_of_missing [of s l]
    by (auto simp: file_LTXFiles_def split: option.splits if_splits)
  have "set (itr infos) = set infos" "distinct (itr infos) = distinct infos" for infos
    using itr_mset [of infos] by (auto dest: mset_eq_setD mset_eq_imp_distinct_iff)
  moreover have "distinct (file_infos prs l seek (dir_of s l))"
  proof -
    have "\<forall>(nm, f)\<in>set (dir_of s l). name_ok fmt prs nm" using fs_inv_dir_of(2) [OF assms(1)] by blast
    from file_infos_distinct [OF fs_inv_dir_of(1) [OF assms(1)] this] show ?thesis by (auto simp: distinct_map)
  qed
  ultimately show ?thesis using it file_infos_listing [OF assms(1)] itr_sorted by simp
qed

lemma Open_law:
  assumes "fs_inv fmt prs s" and "file_OpenLTXFile fmt s l a b off sz = Inr (bs, e)" and "txid_ok a" "txid_ok b"
  shows "\<exists>c ts. file_objects fmt s (l, a, b) = Some (c, ts) \<and> bs = range_of off sz c \<and> e = None"
  using assms
  by (auto simp: file_OpenLTXFile_def file_objects_def range_of_def Let_def split: option.splits sum.splits if_splits)

lemma Write_law:
  assumes "fs_inv fmt prs s" and ok: "txid_ok a" "txid_ok b"
    and "file_WriteLTXFile fmt pk now s l a b rd = (res, s')"
  shows "fs_inv fmt prs s' \<and>
         (file_objects fmt s' = file_objects fmt s \<or>
          snd rd = None \<and> (\<exists>ts. file_objects fmt s' = (file_objects fmt s)((l, a, b) \<mapsto> (fst rd, ts)))) \<and>
         (\<forall>info. res = Inr info \<longrightarrow> snd rd = None \<and> key info = (l, a, b) \<and> FSize info = length (fst rd) \<and>
            file_objects fmt s' = (file_objects fmt s)((l, a, b) \<mapsto> (fst rd, CreatedAt info)))"
proof (cases "fst (ExtractLTXTimestamp pk now rd)")
  case (Inl e)
  then show ?thesis
    using assms by (cases "ExtractLTXTimestamp pk now rd") (auto simp: file_WriteLTXFile_def)
next
  case (Inr ts)
  then have ex: "ExtractLTXTimestamp pk now rd = (Inr ts, rd)"
    by (auto simp: ExtractLTXTimestamp_eq split: if_splits prod.splits sum.splits dest: peek_replays)
  let ?tmp = "tmp_name (fmt a b)"
  let ?s1 = "set_dir s l (dir_of s l)"
  let ?s2 = "put_file ?s1 l ?tmp (fst rd, now)"
  let ?s3 = "put_file (remove_file ?s2 l ?tmp) l (fmt a b) (fst rd, now)"
  have i1: "fs_inv fmt prs ?s1" using assms(1) by (auto intro!: fs_inv_set_dir simp: fs_inv_dir_of)
  then have i2: "fs_inv fmt prs ?s2" by (intro fs_inv_put_file name_ok_tmp)
  have i3: "fs_inv fmt prs ?s3" by (rule fs_inv_put_file [OF fs_inv_remove_file [OF i2] name_ok_fmt [OF ok]])
  note inv = i1 i2 i3 os_Remove_tmp(1) [OF i2] os_Remove_tmp(1) [OF i3] fs_inv_put_file [OF i3 name_ok_fmt [OF ok]]
  show ?thesis
    using assms(1,4) inv
    by (auto simp: file_WriteLTXFile_def ex MkdirAll_def Let_def os_Remove_tmp objects_put [OF ok]
        simp del: first_fault.simps split: option.splits prod.splits if_splits)
qed

lemma Delete_law:
  assumes "fs_inv fmt prs s" and "\<forall>i\<in>set infos. txid_ok (MinTXID i) \<and> txid_ok (MaxTXID i)"
    and "file_DeleteLTXFiles fmt s infos = (res, s')"
  shows "fs_inv fmt prs s' \<and>
         (\<exists>deleted. prefix deleted infos \<and> file_objects fmt s' = file_objects fmt s |` (- key ` set deleted) \<and>
                    (res = None \<longrightarrow> deleted = infos))"
  using assms
proof (induction infos arbitrary: s)
  case (Cons info a)
  let ?nm = "fmt (MinTXID info) (MaxTXID info)"
  have ok: "txid_ok (MinTXID info)" "txid_ok (MaxTXID info)" using Cons.prems(2) by auto
  obtain e s1 where rm: "os_Remove s (FLevel info) ?nm = (e, s1)" by (metis prod.exhaust)
  show ?case
  proof (cases "\<exists>e'. e = Some e' \<and> \<not> os_IsNotExist e'")
    case True
    then have "s' = s" "res \<noteq> None"
      using Cons.prems(3) rm by (auto simp: os_Remove_def split: option.splits)
    then show ?thesis using Cons.prems(1) by (intro conjI exI [of _ "[]"]) (auto simp: restrict_map_def)
  next
    case False
    then have s1: "fs_inv fmt prs s1" "file_objects fmt s1 = (file_objects fmt s)(key info := None)"
      using Cons.prems(1) rm ok fs_inv_def [of fmt prs s]
      by (auto simp: os_Remove_def fs_inv_remove_file objects_remove [OF ok] objects_missing split: option.splits)
    have "file_DeleteLTXFiles fmt s1 a = (res, s')" using False Cons.prems(3) rm by (auto split: option.splits)
    with Cons.IH [OF s1(1)] Cons.prems(2) obtain deleted where "fs_inv fmt prs s'" "prefix deleted a"
      "file_objects fmt s' = file_objects fmt s1 |` (- key ` set deleted)" "res = None \<longrightarrow> deleted = a"
      by auto
    then show ?thesis
      by (intro conjI exI [of _ "info # deleted"]) (auto simp: s1(2) restrict_map_def fun_eq_iff)
  qed
qed (auto simp: restrict_map_def)

end

text \<open>So a file client is a replica client, whatever the LTX library and the clock are.\<close>

locale file_backend = ltx_lib fmt prs itr pk
  for fmt :: "txid \<Rightarrow> txid \<Rightarrow> string" and prs :: "string \<Rightarrow> (txid \<times> txid) option"
    and itr :: "FileInfo list \<Rightarrow> FileInfo list" and pk :: peek_header +
  fixes now :: instant

sublocale file_backend \<subseteq> fc: replica_client "file_client fmt prs itr pk now" "file_objects fmt" "fs_inv fmt prs"
proof (unfold_locales, goal_cases)
  case (1 s level a b v)
  then show ?case by (auto simp: file_objects_def split: if_splits)
next
  case (2 s level seek um it)
  then show ?case using LTXFiles_law [of s level seek um it] by (simp add: file_client_def)
next
  case (3 s level seek um it)
  then show ?case using LTXFiles_law [of s level seek um it] by (simp add: file_client_def)
next
  case (4 s level seek um it)
  then show ?case using LTXFiles_law [of s level seek um it] by (simp add: file_client_def)
next
  case (5 s a b level offset sz bs)
  then show ?case using Open_law [of s level a b offset sz bs None] by (simp add: file_client_def)
next
  case (6 s a b level offset sz)
  then show ?case
    using Open_law [of s level a b offset sz] by (cases "file_OpenLTXFile fmt s level a b offset sz") (auto simp: file_client_def)
next
  case (7 s a b level bs rerr info s')
  then show ?case using Write_law [of s a b now level "(bs, rerr)" "Inr info" s'] by (simp add: file_client_def)
next
  case (8 s a b level rd e s')
  then show ?case using Write_law [of s a b now level rd "Inl e" s'] by (auto simp: file_client_def)
next
  case (9 s infos s')
  then show ?case using Delete_law [of s infos None s'] by (auto simp: file_client_def)
next
  case (10 s infos e s')
  then show ?case using Delete_law [of s infos "Some e" s'] by (auto simp: file_client_def)
qed

text \<open>
  Reading through the file client with reconnects: opening a file at an offset gives a positioned reader of
  the file's contents, so the resumable reader over the file client keeps its contract.
\<close>

definition file_open_at :: "(txid \<Rightarrow> txid \<Rightarrow> string) \<Rightarrow> int \<Rightarrow> txid \<Rightarrow> txid \<Rightarrow> filesys \<Rightarrow> nat \<Rightarrow> (goerr + byte list \<times> nat) \<times> filesys" where
  "file_open_at fmt level a b s off =
     (case file_OpenLTXFile fmt s level a b 0 0 of
        Inl e \<Rightarrow> (Inl e, s)
      | Inr (bs, _) \<Rightarrow> (case (if off > 0 then fault s (SysSeek level (fmt a b)) else None) of
                          Some e \<Rightarrow> (Inl e, s)
                        | None \<Rightarrow> (Inr (bs, off), s)))"

interpretation file_resume: ranged_open file_Read "\<lambda>content off f. f = (content, off)" "file_open_at fmt level a b" object
  "\<lambda>s. \<exists>ts. map_of (dir_of s level) (fmt a b) = Some (object, ts)" for fmt level a b object
  by unfold_locales (auto simp: file_open_at_def file_OpenLTXFile_def Let_def split: option.splits sum.splits prod.splits if_splits)

end
