(* ===== verification/LtxDoc.thy ===== *)
theory LtxDoc
  imports FileClient
begin

text \<open>
  The formats of the LTX library that \<^verbatim>\<open>src/docs/LTX_FORMAT.md\<close> documents (file names, header), used to
  instantiate the parameters that stand for the library: the interpretations below show that the assumptions
  made of it can hold together, and the witnesses of the other theories run on these functions.
\<close>

definition doc_FormatFilename :: "txid \<Rightarrow> txid \<Rightarrow> string" where
  "doc_FormatFilename minTXID maxTXID = fmt_hex 16 minTXID @ ''-'' @ fmt_hex 16 maxTXID @ ''.ltx''"

definition TrimSuffix :: "string \<Rightarrow> string \<Rightarrow> string" where
  "TrimSuffix s suf = (if suffix suf s then take (length s - length suf) s else s)"

fun split_on :: "char \<Rightarrow> string \<Rightarrow> string list" where
  "split_on c [] = [[]]"
| "split_on c (x # xs) =
     (if x = c then [] # split_on c xs
      else case split_on c xs of [] \<Rightarrow> [[x]] | p # ps \<Rightarrow> (x # p) # ps)"

definition doc_ParseFilename :: "string \<Rightarrow> (txid \<times> txid) option" where
  "doc_ParseFilename nm =
     (case split_on (CHR ''-'') (TrimSuffix nm ''.ltx'') of
        [p, q] \<Rightarrow> (case (ParseUint_hex 64 p, ParseUint_hex 64 q) of (Some a, Some b) \<Rightarrow> Some (a, b) | _ \<Rightarrow> None)
      | _ \<Rightarrow> None)"

definition doc_iterator :: "FileInfo list \<Rightarrow> FileInfo list" where
  "doc_iterator infos = sort_key MinTXID (sort_key MaxTXID infos)"

definition doc_PeekHeader :: peek_header where
  "doc_PeekHeader rd =
     (if length (fst rd) < 100
      then (Inl (case snd rd of Some e \<Rightarrow> e | None \<Rightarrow> Sentinel (if fst rd = [] then io_EOF else ErrUnexpectedEOF)), rd)
      else if take 4 (fst rd) \<noteq> go_bytes ''LTX1'' then (Inl (Errorf ''invalid LTX file''), rd)
      else (Inr (sint (Uint64 BigEndian (drop 32 (fst rd)))), rd))"

lemma split_on_not_Nil [simp]: "split_on c xs \<noteq> []"
  by (induction xs) (auto split: list.splits)

lemma split_on_none: "c \<notin> set a \<Longrightarrow> split_on c a = [a]"
  by (induction a) auto

lemma split_on_append: "c \<notin> set a \<Longrightarrow> split_on c (a @ c # b) = a # split_on c b"
  by (induction a) auto

lemma last_split_on: "c \<notin> set suf \<Longrightarrow> \<exists>q. last (split_on c (a @ suf)) = q @ suf"
proof (induction a)
  case (Cons x a)
  then obtain q where "last (split_on c (a @ suf)) = q @ suf" by auto
  then show ?case by (cases "split_on c (a @ suf)") (auto split: if_splits intro: exI [of _ "x # q"])
qed (simp add: split_on_none)

lemma hex_fold_bad: "hex_val c = None \<Longrightarrow> hex_fold acc (a @ c # b) = None"
  by (induction a arbitrary: acc) (auto split: option.splits)

lemma dash_not_hex: "CHR ''-'' \<notin> set (fmt_hex w n)"
proof -
  have "hex_val (CHR ''-'') = None" by code_simp
  then show ?thesis using hex_val_in_fmt by fastforce
qed

lemma doc_Parse_Format: "txid_ok a \<Longrightarrow> txid_ok b \<Longrightarrow> doc_ParseFilename (doc_FormatFilename a b) = Some (a, b)"
proof -
  assume "txid_ok a" "txid_ok b"
  moreover have "TrimSuffix (doc_FormatFilename a b) ''.ltx'' = fmt_hex 16 a @ CHR ''-'' # fmt_hex 16 b"
    by (simp add: TrimSuffix_def doc_FormatFilename_def suffix_def)
  ultimately show ?thesis
    by (simp add: doc_ParseFilename_def split_on_append split_on_none dash_not_hex del: power_numeral)
qed

lemma doc_Parse_tmp: "doc_ParseFilename (nm @ ''.tmp'') = None"
proof -
  have "\<not> suffix ''.ltx'' (nm @ ''.tmp'')" by (auto simp: suffix_def)
  then have trim: "TrimSuffix (nm @ ''.tmp'') ''.ltx'' = nm @ ''.tmp''" by (simp add: TrimSuffix_def)
  obtain q where q: "last (split_on (CHR ''-'') (nm @ ''.tmp'')) = q @ ''.tmp''"
    using last_split_on [of "CHR ''-''" "''.tmp''" nm] by auto
  have "hex_val (CHR ''.'') = None" by code_simp
  then have "ParseUint_hex 64 (q @ ''.tmp'') = None" using hex_fold_bad by (simp add: ParseUint_hex_def)
  with q show ?thesis
    by (auto simp: doc_ParseFilename_def trim split: list.splits option.splits)
qed

interpretation doc_ltx: ltx_lib doc_FormatFilename doc_ParseFilename doc_iterator doc_PeekHeader
proof (unfold_locales, goal_cases)
  case (1 a b)
  then show ?case by (rule doc_Parse_Format)
next
  case (2 nm)
  show ?case by (rule doc_Parse_tmp)
qed (auto simp: doc_iterator_def doc_PeekHeader_def split: if_splits)

interpretation doc_files: file_backend doc_FormatFilename doc_ParseFilename doc_iterator doc_PeekHeader now for now
  by unfold_locales

subsection \<open>Properties of the file client\<close>

definition empty_fs :: filesys where
  "empty_fs = \<lparr>dirs = [], fault = (\<lambda>_. None)\<rparr>"

lemma fs_inv_empty [simp]: "fs_inv fmt prs empty_fs"
  by (simp add: fs_inv_def empty_fs_def)

text \<open>A store with given objects, for the witnesses.\<close>

fun mem_fs :: "(file_key \<times> fs_file) list \<Rightarrow> filesys" where
  "mem_fs [] = empty_fs"
| "mem_fs (((level, a, b), f) # objs) = put_file (mem_fs objs) level (doc_FormatFilename a b) f"

lemma fs_inv_mem: "(\<forall>((l, a, b), f)\<in>set objs. txid_ok a \<and> txid_ok b) \<Longrightarrow> fs_inv doc_FormatFilename doc_ParseFilename (mem_fs objs)"
proof (induction objs)
  case (Cons x objs)
  then show ?case by (cases x; cases "fst x") (auto intro!: fs_inv_put_file doc_ltx.name_ok_fmt simp del: power_numeral)
qed simp

definition doc_client :: "filesys ReplicaClient" where
  "doc_client = file_client doc_FormatFilename doc_ParseFilename doc_iterator doc_PeekHeader 0"

lemma doc_client_contract: "replica_client doc_client (file_objects doc_FormatFilename) (fs_inv doc_FormatFilename doc_ParseFilename)"
  unfolding doc_client_def by (rule doc_files.fc.replica_client_axioms)

text \<open>
  C11. Writing an LTX file is atomic: the invariant of the store is kept; if the write fails, at any system
  call or because the source stream breaks, every object is as before or the target is the complete new
  object, never a part of it; if it succeeds, the target has exactly the bytes of the stream, its creation
  time is the returned one, every other object is unchanged, and the returned info is in the level's listing.
\<close>

theorem file_write_atomic:
  assumes "ltx_lib fmt prs itr pk" and "fs_inv fmt prs s" and "txid_ok a" and "txid_ok b"
    and "file_WriteLTXFile fmt pk now s level a b rd = (res, s')"
  shows "fs_inv fmt prs s' \<and>
         (file_objects fmt s' = file_objects fmt s \<or>
          snd rd = None \<and> (\<exists>ts. file_objects fmt s' = (file_objects fmt s)((level, a, b) \<mapsto> (fst rd, ts)))) \<and>
         (\<forall>info. res = Inr info \<longrightarrow>
            file_objects fmt s' = (file_objects fmt s)((level, a, b) \<mapsto> (fst rd, CreatedAt info)) \<and>
            (\<forall>seek um it. seek \<le> a \<and> file_LTXFiles prs itr s' level seek um = Inr it \<longrightarrow> info \<in> set (iter_items it)))"
proof -
  note w = ltx_lib.Write_law [OF assms]
  have "info \<in> set (iter_items it)" if "res = Inr info" "seek \<le> a" "file_LTXFiles prs itr s' level seek um = Inr it" for info seek um it
  proof -
    have "info = info_of (level, a, b) (fst rd, CreatedAt info)"
      using w that(1) by (cases info) (auto simp: info_of_def)
    then have "info \<in> listing (file_objects fmt s') level seek"
      using w that(1,2) by (auto simp: listing_def)
    then show ?thesis using ltx_lib.LTXFiles_law [OF assms(1) _ that(3)] w by auto
  qed
  with w show ?thesis by blast
qed

theorem file_write_atomic_witness:
  "let (res, s') = file_WriteLTXFile doc_FormatFilename doc_PeekHeader 5 empty_fs 0 1 2 (ageStreamIntro, None)
   in (\<exists>info. res = Inr info) \<and> fs_inv doc_FormatFilename doc_ParseFilename s' \<and>
      (\<exists>ts. file_objects doc_FormatFilename s' (0, 1, 2) = Some (ageStreamIntro, ts))"
proof -
  let ?w = "file_WriteLTXFile doc_FormatFilename doc_PeekHeader 5 empty_fs 0 1 2 (ageStreamIntro, None)"
  have "is_ok (fst ?w)" by code_simp
  then obtain info s' where w: "?w = (Inr info, s')" by (cases ?w; cases "fst ?w") auto
  from file_write_atomic [OF doc_ltx.ltx_lib_axioms fs_inv_empty _ _ w] show ?thesis unfolding w by auto
qed

text \<open>
  C12. The store stays well formed: whichever system call fails, writing, deleting and deleting everything keep the
  invariant of the directories, and in a store that has it every listed entry is of the level that was asked for, has
  64-bit TXIDs at or after the seek position, and carries the size and the time of an object that is there.
\<close>

theorem file_store_well_formed:
  assumes "ltx_lib fmt prs itr pk" and "fs_inv fmt prs s"
  shows "(txid_ok a \<and> txid_ok b \<longrightarrow> fs_inv fmt prs (snd (file_WriteLTXFile fmt pk now s level a b rd))) \<and>
         ((\<forall>i\<in>set infos. txid_ok (MinTXID i) \<and> txid_ok (MaxTXID i)) \<longrightarrow> fs_inv fmt prs (snd (file_DeleteLTXFiles fmt s infos))) \<and>
         fs_inv fmt prs (snd (file_DeleteAll s)) \<and>
         (file_LTXFiles prs itr s level seek um = Inr it \<longrightarrow>
            (\<forall>i\<in>set (iter_items it). FLevel i = level \<and> txid_ok (MinTXID i) \<and> txid_ok (MaxTXID i) \<and> seek \<le> MinTXID i \<and>
               (\<exists>bs. file_objects fmt s (key i) = Some (bs, CreatedAt i) \<and> FSize i = length bs)))"
proof (intro conjI impI)
  show "fs_inv fmt prs (snd (file_WriteLTXFile fmt pk now s level a b rd))" if "txid_ok a \<and> txid_ok b"
    using ltx_lib.Write_law [OF assms, of a b now level rd] that by (metis prod.collapse)
  show "fs_inv fmt prs (snd (file_DeleteLTXFiles fmt s infos))" if "\<forall>i\<in>set infos. txid_ok (MinTXID i) \<and> txid_ok (MaxTXID i)"
    using ltx_lib.Delete_law [OF assms that] by (metis prod.collapse)
  show "fs_inv fmt prs (snd (file_DeleteAll s))"
    using assms(2) by (auto simp: file_DeleteAll_def fs_inv_def split: option.splits)
  show "\<forall>i\<in>set (iter_items it). FLevel i = level \<and> txid_ok (MinTXID i) \<and> txid_ok (MaxTXID i) \<and> seek \<le> MinTXID i \<and>
      (\<exists>bs. file_objects fmt s (key i) = Some (bs, CreatedAt i) \<and> FSize i = length bs)"
    if "file_LTXFiles prs itr s level seek um = Inr it"
    using ltx_lib.LTXFiles_law [OF assms that] by (force simp: listing_def info_of_def file_objects_def split: if_splits)
qed

text \<open>A write whose rename fails leaves a well-formed store.\<close>

theorem file_store_well_formed_witness:
  "let s = empty_fs\<lparr>fault := (\<lambda>c. case c of SysRename l n \<Rightarrow> Some (Errorf ''input/output error'') | _ \<Rightarrow> None)\<rparr>;
       (res, s') = file_WriteLTXFile doc_FormatFilename doc_PeekHeader 5 s 0 1 2 (ageStreamIntro, None)
   in res = Inl (Errorf ''input/output error'') \<and> fs_inv doc_FormatFilename doc_ParseFilename s'"
proof -
  let ?s = "empty_fs\<lparr>fault := (\<lambda>c. case c of SysRename l n \<Rightarrow> Some (Errorf ''input/output error'') | _ \<Rightarrow> None)\<rparr>"
  let ?w = "file_WriteLTXFile doc_FormatFilename doc_PeekHeader 5 ?s 0 1 2 (ageStreamIntro, None)"
  have w: "fst ?w = Inl (Errorf ''input/output error'')" by code_simp
  have "fs_inv doc_FormatFilename doc_ParseFilename ?s"
    using fs_inv_empty by (auto simp: fs_inv_def split: fs_call.splits)
  from file_store_well_formed [OF doc_ltx.ltx_lib_axioms this, of 1 2 5 0 "(ageStreamIntro, None)"] w show ?thesis
    by (simp add: Let_def case_prod_beta)
qed

text \<open>
  Fetching the page index of an LTX file returns the index block and what follows it, whether the first
  fetch of the estimated size already covered it or a second fetch was needed, for every client that keeps
  the contract and every file whose last bytes are the index, its size and the trailer.
\<close>

theorem page_index_fetched:
  assumes "replica_client client files okay" and "okay s" and "txid_ok (MinTXID info)" and "txid_ok (MaxTXID info)"
    and "files s (key info) = Some (body @ idx @ PutUint64 BigEndian (of_nat (length idx)) @ trailer, ts)"
    and "length trailer = trailer_size" and "length idx < 2 ^ 63"
    and "FSize info = length body + length idx + 8 + trailer_size"
    and "fetchPageIndexData trailer_size client s info = Inr (bs, None)"
  shows "bs = idx @ PutUint64 BigEndian (of_nat (length idx)) @ trailer"
  using assms by (rule replica_client.fetchPageIndexData_suffix)

theorem page_index_fetched_witness:
  "let s = put_file empty_fs 0 (doc_FormatFilename 1 2) ([1, 2] @ [7, 8, 9] @ PutUint64 BigEndian 3 @ [5], 0);
       client = file_client doc_FormatFilename doc_ParseFilename doc_iterator doc_PeekHeader 0;
       info = \<lparr>FLevel = 0, MinTXID = 1, MaxTXID = 2, FSize = 14, CreatedAt = 0\<rparr>
   in \<exists>bs. fetchPageIndexData 1 client s info = Inr (bs, None) \<and> bs = [7, 8, 9] @ PutUint64 BigEndian 3 @ [5]"
proof -
  let ?s = "put_file empty_fs 0 (doc_FormatFilename 1 2) ([1, 2] @ [7, 8, 9] @ PutUint64 BigEndian 3 @ [5], 0)"
  let ?info = "\<lparr>FLevel = 0, MinTXID = 1, MaxTXID = 2, FSize = 14, CreatedAt = 0\<rparr>"
  have inv: "fs_inv doc_FormatFilename doc_ParseFilename ?s"
    by (intro fs_inv_put_file fs_inv_empty doc_ltx.name_ok_fmt) simp_all
  have obj: "file_objects doc_FormatFilename ?s (key ?info) =
      Some ([1, 2] @ [7, 8, 9] @ PutUint64 BigEndian (of_nat (length [7, 8, 9 :: byte])) @ [5], 0)"
    by (simp add: file_objects_def)
  let ?client = "file_client doc_FormatFilename doc_ParseFilename doc_iterator doc_PeekHeader 0"
  have "case fetchPageIndexData 1 ?client ?s ?info of Inl _ \<Rightarrow> False | Inr (bs, e) \<Rightarrow> e = None" by code_simp
  then obtain bs where bs: "fetchPageIndexData 1 ?client ?s ?info = Inr (bs, None)"
    by (cases "fetchPageIndexData 1 ?client ?s ?info") auto
  from page_index_fetched [OF doc_files.fc.replica_client_axioms inv _ _ obj _ _ _ bs] bs show ?thesis
    unfolding Let_def by auto
qed

end
