(* ===== verification/Levels.thy ===== *)
theory Levels
  imports Prelude
begin

section \<open>Compaction levels\<close>

text \<open>
  The multi-level compaction schedule of \<^verbatim>\<open>src/compaction_level.go\<close>: the level record, the
  validation of a configured list, the navigation between levels and the alignment of
  compaction times to the level's interval.
\<close>

subsection \<open>Model\<close>

definition SnapshotLevel :: int where
  "SnapshotLevel = 9"

record CompactionLevel =
  Level :: int
  Interval :: duration

type_synonym CompactionLevels = "CompactionLevel list"

definition DefaultCompactionLevels :: CompactionLevels where
  "DefaultCompactionLevels =
     [\<lparr>Level = 0, Interval = 0\<rparr>,
      \<lparr>Level = 1, Interval = 30 * second\<rparr>,
      \<lparr>Level = 2, Interval = 5 * minute\<rparr>,
      \<lparr>Level = 3, Interval = hour\<rparr>]"

definition PrevCompactionAt :: "CompactionLevel \<Rightarrow> instant \<Rightarrow> instant" where
  "PrevCompactionAt lvl now = time_Truncate now (Interval lvl)"

definition NextCompactionAt :: "CompactionLevel \<Rightarrow> instant \<Rightarrow> instant" where
  "NextCompactionAt lvl now = PrevCompactionAt lvl now + Interval lvl"

datatype level_error =
    ErrSnapshotLevelArg
  | ErrLevelOutOfBounds int
  | ErrNoLevels
  | ErrLevelOutOfOrder int int
  | ErrLevelExceedsMax
  | ErrIntervalOnLevelZero
  | ErrIntervalRequired int

definition MaxLevel :: "CompactionLevels \<Rightarrow> int" where
  "MaxLevel a = int (length a) - 1"

definition LevelAt :: "CompactionLevels \<Rightarrow> int \<Rightarrow> level_error + CompactionLevel" where
  "LevelAt a level =
     (if level = SnapshotLevel then Inl ErrSnapshotLevelArg
      else if level < 0 \<or> level > MaxLevel a then Inl (ErrLevelOutOfBounds level)
      else Inr (a ! nat level))"

text \<open>The body of the loop of \<^verbatim>\<open>Validate\<close>, from index \<open>i\<close> on.\<close>

fun validate_from :: "int \<Rightarrow> CompactionLevels \<Rightarrow> level_error option" where
  "validate_from i [] = None"
| "validate_from i (lvl # rest) =
     (if i \<noteq> Level lvl then Some (ErrLevelOutOfOrder (Level lvl) i)
      else if Level lvl > SnapshotLevel - 1 then Some ErrLevelExceedsMax
      else if Level lvl = 0 \<and> Interval lvl \<noteq> 0 then Some ErrIntervalOnLevelZero
      else if Level lvl \<noteq> 0 \<and> Interval lvl \<le> 0 then Some (ErrIntervalRequired (Level lvl))
      else validate_from (i + 1) rest)"

definition Validate :: "CompactionLevels \<Rightarrow> level_error option" where
  "Validate a = (if length a = 0 then Some ErrNoLevels else validate_from 0 a)"

definition IsValidLevel :: "CompactionLevels \<Rightarrow> int \<Rightarrow> bool" where
  "IsValidLevel a level =
     (if level = SnapshotLevel then True else level \<ge> 0 \<and> level < int (length a))"

definition PrevLevel :: "CompactionLevels \<Rightarrow> int \<Rightarrow> int" where
  "PrevLevel a level = (if level = SnapshotLevel then MaxLevel a else level - 1)"

definition NextLevel :: "CompactionLevels \<Rightarrow> int \<Rightarrow> int" where
  "NextLevel a level =
     (if level = SnapshotLevel then -1
      else if level = MaxLevel a then SnapshotLevel
      else level + 1)"

lemmas [level_simps] = SnapshotLevel_def MaxLevel_def LevelAt_def IsValidLevel_def
  PrevLevel_def NextLevel_def

subsection \<open>What a validated list looks like\<close>

definition level_ok :: "int \<Rightarrow> CompactionLevel \<Rightarrow> bool" where
  "level_ok i lvl \<longleftrightarrow> Level lvl = i \<and> i < SnapshotLevel \<and> (if i = 0 then Interval lvl = 0 else 0 < Interval lvl)"

lemma validate_from_None_iff:
  "validate_from i a = None \<longleftrightarrow> (\<forall>k<length a. level_ok (i + int k) (a ! k))"
proof (induction i a rule: validate_from.induct)
  case (2 i lvl rest)
  have "(\<forall>k<length (lvl # rest). level_ok (i + int k) ((lvl # rest) ! k)) \<longleftrightarrow>
        level_ok i lvl \<and> (\<forall>k<length rest. level_ok (i + 1 + int k) (rest ! k))"
    by (simp add: all_less_Suc_split algebra_simps)
  with 2 show ?case by (auto simp: level_ok_def SnapshotLevel_def)
qed simp

lemma Validate_length: "Validate a = None \<Longrightarrow> 0 < length a \<and> length a \<le> 9"
proof -
  assume v: "Validate a = None"
  then have ne: "a \<noteq> []" by (auto simp: Validate_def)
  with v have "level_ok (int (length a - 1)) (a ! (length a - 1))"
    by (auto simp: Validate_def validate_from_None_iff)
  with ne show ?thesis by (auto simp: level_ok_def SnapshotLevel_def)
qed

text \<open>
  C1. \<open>CompactionLevels.Validate\<close> accepts exactly the non-empty lists of at most nine levels in which
  the level at index \<open>i\<close> carries the number \<open>i\<close>, level 0 has no interval and every other level has a
  positive one.
\<close>

theorem Validate_accepts_iff:
  "Validate a = None \<longleftrightarrow>
     a \<noteq> [] \<and> length a \<le> 9 \<and>
     (\<forall>i<length a. Level (a ! i) = int i \<and> (if i = 0 then Interval (a ! i) = 0 else 0 < Interval (a ! i)))"
  (is "_ \<longleftrightarrow> ?R")
proof
  assume v: "Validate a = None"
  with Validate_length [OF v] show ?R
    by (auto simp: Validate_def validate_from_None_iff level_ok_def split: if_splits)
next
  assume ?R
  then show "Validate a = None"
    by (auto simp: Validate_def validate_from_None_iff level_ok_def SnapshotLevel_def)
qed

theorem Validate_accepts_iff_witness:
  "DefaultCompactionLevels \<noteq> [] \<and> Validate DefaultCompactionLevels = None"
  using Validate_accepts_iff [of DefaultCompactionLevels]
  by (simp add: DefaultCompactionLevels_def Validate_def SnapshotLevel_def)

text \<open>
  C2. Level navigation is consistent on a validated list: every level but the first is the successor
  of its predecessor, the predecessor of a successor is the level itself, \<open>NextLevel\<close> and \<open>PrevLevel\<close>
  stay within the valid levels, the chain ends at the snapshot level, and \<open>LevelAt\<close> returns, for every
  valid non-snapshot level, the entry that carries that number.
\<close>

theorem level_navigation:
  assumes "Validate a = None" and "IsValidLevel a level"
  shows "(level \<noteq> 0 \<longrightarrow> IsValidLevel a (PrevLevel a level) \<and> NextLevel a (PrevLevel a level) = level) \<and>
         (level \<noteq> SnapshotLevel \<longrightarrow>
            IsValidLevel a (NextLevel a level) \<and> PrevLevel a (NextLevel a level) = level \<and>
            (\<exists>lvl. LevelAt a level = Inr lvl \<and> Level lvl = level)) \<and>
         NextLevel a SnapshotLevel = -1 \<and> PrevLevel a 0 = -1"
proof -
  from assms(1) have len: "0 < length a" "length a \<le> 9" by (auto dest: Validate_length)
  have "Level (a ! nat level) = level" if "0 \<le> level" "level < int (length a)"
    using assms(1) that
    by (cases "nat level < length a") (auto simp: Validate_def validate_from_None_iff level_ok_def split: if_splits)
  with len assms(2) show ?thesis
    by (auto simp: level_simps split: if_splits)
qed

theorem level_navigation_witness:
  "Validate DefaultCompactionLevels = None \<and> IsValidLevel DefaultCompactionLevels 3 \<and>
   NextLevel DefaultCompactionLevels 3 = SnapshotLevel \<and> PrevLevel DefaultCompactionLevels SnapshotLevel = 3"
proof -
  have v: "Validate DefaultCompactionLevels = None" "IsValidLevel DefaultCompactionLevels 3"
    by (simp_all add: DefaultCompactionLevels_def Validate_def level_simps)
  from level_navigation [OF v] v show ?thesis
    by (simp add: DefaultCompactionLevels_def level_simps)
qed

text \<open>
  C3. Compaction times are aligned to the interval: for a positive interval, \<open>PrevCompactionAt\<close> is the
  latest multiple of the interval that is not after \<open>now\<close>, and \<open>NextCompactionAt\<close> is the next multiple,
  strictly after \<open>now\<close>. In particular it is never \<open>now\<close> itself, not even when \<open>now\<close> is a multiple of
  the interval.
\<close>

theorem compaction_times_aligned:
  assumes "0 < Interval lvl"
  shows "PrevCompactionAt lvl now \<le> now \<and> now < NextCompactionAt lvl now \<and>
         Interval lvl dvd PrevCompactionAt lvl now \<and> Interval lvl dvd NextCompactionAt lvl now \<and>
         (\<forall>u. Interval lvl dvd u \<and> u \<le> now \<longrightarrow> u \<le> PrevCompactionAt lvl now) \<and>
         NextCompactionAt lvl now \<noteq> now"
proof -
  have "now < NextCompactionAt lvl now"
    using assms by (simp add: NextCompactionAt_def PrevCompactionAt_def time_Truncate_gt)
  with assms show ?thesis
    by (auto simp: NextCompactionAt_def PrevCompactionAt_def time_Truncate_le
        time_Truncate_dvd intro: time_Truncate_greatest)
qed

theorem compaction_times_aligned_witness:
  "PrevCompactionAt \<lparr>Level = 1, Interval = 30\<rparr> 60 = 60 \<and> NextCompactionAt \<lparr>Level = 1, Interval = 30\<rparr> 60 = 90 \<and>
   NextCompactionAt \<lparr>Level = 1, Interval = 30\<rparr> 60 \<noteq> 60"
  using compaction_times_aligned [of "\<lparr>Level = 1, Interval = 30\<rparr>" 60]
  by (simp add: NextCompactionAt_def PrevCompactionAt_def time_Truncate_def)

end
