(* ===== verification/Compactor.thy ===== *)
theory Compactor
  imports LtxDoc Levels
begin

text \<open>
  The compactor (\<^verbatim>\<open>src/compactor.go\<close>): merging the files of a level into the next one, checking that a level
  is contiguous, and deleting files that retention no longer needs. It works on any client that keeps the
  contract \<open>replica_client\<close>.

  The optional callbacks of the Go struct are options of functions over the state they close over: the local
  files \<open>'l\<close> and the cache of the newest file per level. \<^verbatim>\<open>age\<close> and the LTX compactor are libraries, given by the
  record \<open>codec\<close>. The test \<^verbatim>\<open>deleted[len(deleted)-1] == lastInfo\<close> compares pointers; it is the flag that the
  last item of the iteration was appended.
\<close>

subsection \<open>State\<close>

type_synonym info_cache = "(int \<times> FileInfo) list"

record codec =
  age_Decrypt :: "string list \<Rightarrow> stream \<Rightarrow> goerr + stream"
  age_Encrypt :: "string list \<Rightarrow> goerr + (byte list \<Rightarrow> byte list \<times> goerr option)"
  ltx_NewCompactor :: "stream list \<Rightarrow> goerr option"
  ltx_Compact :: "stream list \<Rightarrow> byte list \<times> goerr option"

record ('s, 'l) Compactor =
  cp_client :: "'s ReplicaClient"
  VerifyCompaction :: bool
  RetentionEnabled :: bool
  LocalFileOpener :: "('l \<Rightarrow> int \<Rightarrow> txid \<Rightarrow> txid \<Rightarrow> goerr + stream) option"
  LocalFileDeleter :: "('l \<Rightarrow> int \<Rightarrow> txid \<Rightarrow> txid \<Rightarrow> goerr option \<times> 'l) option"
  CacheGetter :: "(info_cache \<Rightarrow> int \<Rightarrow> FileInfo option) option"
  CacheSetter :: "(info_cache \<Rightarrow> int \<Rightarrow> FileInfo \<Rightarrow> info_cache) option"
  AgeIdentities :: "string list"
  AgeRecipients :: "string list"
  RequireEncryption :: bool

record ('s, 'l) cworld =
  remote :: 's
  local :: 'l
  cache :: info_cache
  verify_errors :: nat

definition NewCompactor :: "'s ReplicaClient \<Rightarrow> ('s, 'l) Compactor" where
  "NewCompactor client =
     \<lparr>cp_client = client, VerifyCompaction = False, RetentionEnabled = True, LocalFileOpener = None,
      LocalFileDeleter = None, CacheGetter = None, CacheSetter = None, AgeIdentities = [], AgeRecipients = [],
      RequireEncryption = False\<rparr>"

definition next_txid :: "txid \<Rightarrow> txid" where
  "next_txid t = nat ((int t + 1) mod 2 ^ 64)"

definition zero_info :: FileInfo where
  "zero_info = \<lparr>FLevel = 0, MinTXID = 0, MaxTXID = 0, FSize = 0, CreatedAt = 0\<rparr>"

subsection \<open>The newest file of a level\<close>

definition max_info :: "FileInfo list \<Rightarrow> FileInfo" where
  "max_info its = fold (\<lambda>item info. if MaxTXID item > MaxTXID info then item else info) its zero_info"

definition cp_MaxLTXFileInfo :: "('s, 'l) Compactor \<Rightarrow> ('s, 'l) cworld \<Rightarrow> int \<Rightarrow> (FileInfo \<times> goerr option) \<times> ('s, 'l) cworld" where
  "cp_MaxLTXFileInfo c w level =
     (case (case CacheGetter c of Some g \<Rightarrow> g (cache w) level | None \<Rightarrow> None) of
        Some info \<Rightarrow> ((info, None), w)
      | None \<Rightarrow>
          (case LTXFiles (cp_client c) (remote w) level 0 False of
             Inl e \<Rightarrow> ((zero_info, Some e), w)
           | Inr it \<Rightarrow>
               let info = max_info (iter_items it);
                   w = (case CacheSetter c of
                          Some set_fn \<Rightarrow> if MaxTXID info > 0 then w\<lparr>cache := set_fn (cache w) level info\<rparr> else w
                        | None \<Rightarrow> w)
               in ((info, iter_err it), w)))"

subsection \<open>Contiguity of a level\<close>

fun verify_loop :: "FileInfo option \<Rightarrow> FileInfo list \<Rightarrow> goerr option" where
  "verify_loop prev [] = None"
| "verify_loop None (info # rest) = verify_loop (Some info) rest"
| "verify_loop (Some prev) (info # rest) =
     (if MinTXID info \<noteq> next_txid (MaxTXID prev)
      then (if MinTXID info > next_txid (MaxTXID prev) then Some (Errorf ''TXID gap detected'')
            else Some (Errorf ''TXID overlap detected''))
      else verify_loop (Some info) rest)"

definition VerifyLevelConsistency :: "('s, 'l) Compactor \<Rightarrow> ('s, 'l) cworld \<Rightarrow> int \<Rightarrow> goerr option" where
  "VerifyLevelConsistency c w level =
     (case LTXFiles (cp_client c) (remote w) level 0 False of
        Inl e \<Rightarrow> Some (Wrapf ''fetch ltx files'' e)
      | Inr it \<Rightarrow>
          (case verify_loop None (iter_items it) of
             Some e \<Rightarrow> Some e
           | None \<Rightarrow> (case iter_err it of Some e \<Rightarrow> Some (Wrapf ''close iterator'' e) | None \<Rightarrow> None)))"

subsection \<open>Compaction\<close>

text \<open>\<open>open_source\<close> is the body of the loop over the source files: the local copy if there is one, else the
  remote object, decrypted if it is sealed.\<close>

definition open_source :: "codec \<Rightarrow> ('s, 'l) Compactor \<Rightarrow> ('s, 'l) cworld \<Rightarrow> int \<Rightarrow> FileInfo \<Rightarrow> goerr + stream" where
  "open_source cd c w srcLevel info =
     (let fetch =
        (case OpenLTXFile (cp_client c) (remote w) (FLevel info) (MinTXID info) (MaxTXID info) 0 0 of
           Inl e \<Rightarrow> Inl (Wrapf ''open ltx file'' e)
         | Inr f \<Rightarrow>
             if length (AgeIdentities c) > 0
             then (case DecryptIfSealed f (age_Decrypt cd (AgeIdentities c)) of
                     Inl e \<Rightarrow> Inl (Wrapf ''age decrypt ltx file'' e)
                   | Inr dr \<Rightarrow> Inr dr)
             else Inr f)
      in case LocalFileOpener c of
           None \<Rightarrow> fetch
         | Some opn \<Rightarrow>
             (case opn (local w) srcLevel (MinTXID info) (MaxTXID info) of
                Inr f \<Rightarrow> Inr f
              | Inl e \<Rightarrow> if \<not> os_IsNotExist e then Inl (Wrapf ''open local ltx file'' e) else fetch))"

fun compact_sources ::
  "codec \<Rightarrow> ('s, 'l) Compactor \<Rightarrow> ('s, 'l) cworld \<Rightarrow> int \<Rightarrow> FileInfo list \<Rightarrow> txid \<times> txid \<times> stream list \<Rightarrow>
   goerr + txid \<times> txid \<times> stream list" where
  "compact_sources cd c w srcLevel [] acc = Inr acc"
| "compact_sources cd c w srcLevel (info # rest) (minTXID, maxTXID, rdrs) =
     (let minTXID = (if minTXID = 0 \<or> MinTXID info < minTXID then MinTXID info else minTXID);
          maxTXID = (if maxTXID = 0 \<or> MaxTXID info > maxTXID then MaxTXID info else maxTXID)
      in case open_source cd c w srcLevel info of
           Inl e \<Rightarrow> Inl e
         | Inr f \<Rightarrow> compact_sources cd c w srcLevel rest (minTXID, maxTXID, rdrs @ [f]))"

text \<open>\<open>compact_pipe\<close> is what the goroutine writes into the pipe that \<open>WriteLTXFile\<close> reads.\<close>

definition compact_pipe :: "codec \<Rightarrow> string list \<Rightarrow> stream list \<Rightarrow> stream" where
  "compact_pipe cd recipients rdrs =
     (let run = (\<lambda>w_close.
        (case ltx_NewCompactor cd rdrs of
           Some e \<Rightarrow> (fst (w_close []), Some (Wrapf ''new ltx compactor'' e))
         | None \<Rightarrow>
             let (bs, err) = ltx_Compact cd rdrs; (out, close_err) = w_close bs
             in (out, case err of Some e \<Rightarrow> Some e | None \<Rightarrow> close_err)))
      in if length recipients > 0
         then (case age_Encrypt cd recipients of
                 Inl e \<Rightarrow> ([], Some (Wrapf ''age encrypt'' e))
               | Inr enc \<Rightarrow> run enc)
         else run (\<lambda>bs. (bs, None)))"

definition Compact :: "codec \<Rightarrow> ('s, 'l) Compactor \<Rightarrow> ('s, 'l) cworld \<Rightarrow> int \<Rightarrow> (goerr + FileInfo) \<times> ('s, 'l) cworld" where
  "Compact cd c w dstLevel =
     (let srcLevel = dstLevel - 1 in
      if RequireEncryption c \<and> length (AgeRecipients c) = 0 then (Inl (Sentinel ErrEncryptionRequired), w)
      else case cp_MaxLTXFileInfo c w dstLevel of
        ((_, Some e), w) \<Rightarrow> (Inl (Wrapf ''cannot determine max ltx file for destination level'' e), w)
      | ((prevMaxInfo, None), w) \<Rightarrow>
          (case LTXFiles (cp_client c) (remote w) srcLevel (next_txid (MaxTXID prevMaxInfo)) False of
             Inl e \<Rightarrow> (Inl (Wrapf ''source ltx files'' e), w)
           | Inr it \<Rightarrow>
               (case compact_sources cd c w srcLevel (iter_items it) (0, 0, []) of
                  Inl e \<Rightarrow> (Inl e, w)
                | Inr (minTXID, maxTXID, rdrs) \<Rightarrow>
                    if length rdrs = 0 then (Inl (Sentinel ErrNoCompaction), w)
                    else case WriteLTXFile (cp_client c) (remote w) dstLevel minTXID maxTXID
                                (compact_pipe cd (AgeRecipients c) rdrs) of
                      (Inl e, s) \<Rightarrow> (Inl (Wrapf ''write ltx file'' e), w\<lparr>remote := s\<rparr>)
                    | (Inr info, s) \<Rightarrow>
                        let w = w\<lparr>remote := s\<rparr>;
                            w = (case CacheSetter c of Some set_fn \<Rightarrow> w\<lparr>cache := set_fn (cache w) dstLevel info\<rparr> | None \<Rightarrow> w);
                            w = (if VerifyCompaction c \<and> VerifyLevelConsistency c w dstLevel \<noteq> None
                                 then w\<lparr>verify_errors := verify_errors w + 1\<rparr> else w)
                        in (Inr info, w))))"

subsection \<open>Retention\<close>

fun local_delete :: "('s, 'l) Compactor \<Rightarrow> int \<Rightarrow> FileInfo list \<Rightarrow> 'l \<Rightarrow> 'l" where
  "local_delete c level [] l = l"
| "local_delete c level (info # rest) l =
     (case LocalFileDeleter c of
        None \<Rightarrow> l
      | Some del \<Rightarrow> local_delete c level rest (snd (del l level (MinTXID info) (MaxTXID info))))"

text \<open>The tail shared by the three retention functions: delete remotely if retention is enabled, then locally.\<close>

definition apply_deletes ::
  "('s, 'l) Compactor \<Rightarrow> ('s, 'l) cworld \<Rightarrow> int \<Rightarrow> string \<Rightarrow> FileInfo list \<Rightarrow> goerr option \<times> ('s, 'l) cworld" where
  "apply_deletes c w level msg deleted =
     (if \<not> RetentionEnabled c then (None, w\<lparr>local := local_delete c level deleted (local w)\<rparr>)
      else case DeleteLTXFiles (cp_client c) (remote w) deleted of
             (Some e, s) \<Rightarrow> (Some (Wrapf msg e), w\<lparr>remote := s\<rparr>)
           | (None, s) \<Rightarrow> (None, w\<lparr>remote := s, local := local_delete c level deleted (local w)\<rparr>))"

fun snapshot_loop :: "instant \<Rightarrow> FileInfo list \<Rightarrow> FileInfo list \<times> bool \<times> txid \<Rightarrow> FileInfo list \<times> bool \<times> txid" where
  "snapshot_loop timestamp [] st = st"
| "snapshot_loop timestamp (info # rest) (deleted, lastDel, minTXID) =
     (if CreatedAt info < timestamp then snapshot_loop timestamp rest (deleted @ [info], True, minTXID)
      else snapshot_loop timestamp rest
             (deleted, False, if minTXID = 0 \<or> MaxTXID info < minTXID then MaxTXID info else minTXID))"

definition EnforceSnapshotRetention ::
  "('s, 'l) Compactor \<Rightarrow> ('s, 'l) cworld \<Rightarrow> instant \<Rightarrow> duration \<Rightarrow> (goerr + txid) \<times> ('s, 'l) cworld" where
  "EnforceSnapshotRetention c w now retention =
     (let timestamp = now - retention in
      case LTXFiles (cp_client c) (remote w) SnapshotLevel 0 False of
        Inl e \<Rightarrow> (Inl (Wrapf ''fetch ltx files'' e), w)
      | Inr it \<Rightarrow>
          (case snapshot_loop timestamp (iter_items it) ([], False, 0) of
             (deleted, lastDel, minSnapshotTXID) \<Rightarrow>
               let deleted = (if length deleted > 0 \<and> lastDel then butlast deleted else deleted)
               in case apply_deletes c w SnapshotLevel ''remove ltx files'' deleted of
                    (Some e, w) \<Rightarrow> (Inl e, w)
                  | (None, w) \<Rightarrow> (Inr minSnapshotTXID, w)))"

fun txid_loop :: "txid \<Rightarrow> FileInfo list \<Rightarrow> FileInfo list \<times> bool \<Rightarrow> FileInfo list \<times> bool" where
  "txid_loop txID [] st = st"
| "txid_loop txID (info # rest) (deleted, lastDel) =
     (if MaxTXID info < txID then txid_loop txID rest (deleted @ [info], True)
      else txid_loop txID rest (deleted, False))"

definition EnforceRetentionByTXID ::
  "('s, 'l) Compactor \<Rightarrow> ('s, 'l) cworld \<Rightarrow> int \<Rightarrow> txid \<Rightarrow> goerr option \<times> ('s, 'l) cworld" where
  "EnforceRetentionByTXID c w level txID =
     (case LTXFiles (cp_client c) (remote w) level 0 False of
        Inl e \<Rightarrow> (Some (Wrapf ''fetch ltx files'' e), w)
      | Inr it \<Rightarrow>
          (case txid_loop txID (iter_items it) ([], False) of
             (deleted, lastDel) \<Rightarrow>
               let deleted = (if length deleted > 0 \<and> lastDel then butlast deleted else deleted)
               in apply_deletes c w level ''remove ltx files'' deleted))"

text \<open>\<open>l0_loop\<close> returns the files to delete, whether the last item looked at is one of them, and whether all
  items were processed.\<close>

fun l0_loop :: "instant \<Rightarrow> txid \<Rightarrow> FileInfo list \<Rightarrow> FileInfo list \<times> bool \<Rightarrow> FileInfo list \<times> bool \<times> bool" where
  "l0_loop threshold maxL1 [] (deleted, lastDel) = (deleted, lastDel, True)"
| "l0_loop threshold maxL1 (info # rest) (deleted, lastDel) =
     (let createdAt = (if CreatedAt info = 0 then threshold else CreatedAt info)
      in if createdAt > threshold then (deleted, False, False)
         else if MaxTXID info \<le> maxL1 then l0_loop threshold maxL1 rest (deleted @ [info], True)
         else l0_loop threshold maxL1 rest (deleted, False))"

definition EnforceL0Retention ::
  "('s, 'l) Compactor \<Rightarrow> ('s, 'l) cworld \<Rightarrow> instant \<Rightarrow> duration \<Rightarrow> goerr option \<times> ('s, 'l) cworld" where
  "EnforceL0Retention c w now retention =
     (if retention \<le> 0 then (None, w)
      else case LTXFiles (cp_client c) (remote w) 1 0 False of
        Inl e \<Rightarrow> (Some (Wrapf ''fetch l1 files'' e), w)
      | Inr it \<Rightarrow>
          let maxL1TXID = fold (\<lambda>info m. if MaxTXID info > m then MaxTXID info else m) (iter_items it) 0 in
          (case iter_err it of
             Some e \<Rightarrow> (Some (Wrapf ''close l1 iterator'' e), w)
           | None \<Rightarrow>
               if maxL1TXID = 0 then (None, w)
               else case LTXFiles (cp_client c) (remote w) 0 0 False of
                 Inl e \<Rightarrow> (Some (Wrapf ''fetch l0 files'' e), w)
               | Inr it \<Rightarrow>
                   (case l0_loop (now - retention) maxL1TXID (iter_items it) ([], False) of
                      (deleted, lastDel, processedAll) \<Rightarrow>
                        let deleted = (if processedAll \<and> length deleted > 0 \<and> lastDel then butlast deleted else deleted)
                        in if length deleted = 0 then (None, w) else apply_deletes c w 0 ''remove expired l0 files'' deleted)))"

subsection \<open>What the loops compute\<close>

definition contiguous :: "FileInfo list \<Rightarrow> bool" where
  "contiguous its \<longleftrightarrow> successively (\<lambda>a b. MinTXID b = MaxTXID a + 1) its"

lemma next_txid_eq: "t < 2 ^ 64 - 1 \<Longrightarrow> next_txid t = t + 1"
  by (simp add: next_txid_def)

lemma verify_loop_Some: "(verify_loop (Some p) its = None) = (verify_loop None (p # its) = None)"
  by simp

lemma verify_loop_iff:
  "(\<forall>i\<in>set its. MaxTXID i < 2 ^ 64 - 1) \<Longrightarrow> verify_loop None its = None \<longleftrightarrow> contiguous its"
proof (induction its rule: induct_list012)
  case (3 x y zs)
  then show ?case by (simp add: contiguous_def next_txid_eq)
qed (simp_all add: contiguous_def)

lemma snapshot_loop_eq:
  "snapshot_loop ts its (d, l, m) =
     (d @ filter (\<lambda>i. CreatedAt i < ts) its, if its = [] then l else CreatedAt (last its) < ts,
      fold (\<lambda>i m. if m = 0 \<or> MaxTXID i < m then MaxTXID i else m) (filter (\<lambda>i. \<not> CreatedAt i < ts) its) m)"
  by (induction its arbitrary: d l m) auto

lemma txid_loop_eq:
  "txid_loop t its (d, l) = (d @ filter (\<lambda>i. MaxTXID i < t) its, if its = [] then l else MaxTXID (last its) < t)"
  by (induction its arbitrary: d l) auto

text \<open>Without the last item if it was appended, the files to delete are those among all but the last item.\<close>

lemma trim_filter:
  "(if 0 < length (filter P its) \<and> its \<noteq> [] \<and> P (last its) then butlast (filter P its) else filter P its) = filter P (butlast its)"
  by (cases its rule: rev_cases) auto

definition l0_old :: "instant \<Rightarrow> FileInfo \<Rightarrow> bool" where
  "l0_old threshold i \<longleftrightarrow> (CreatedAt i = 0 \<or> CreatedAt i \<le> threshold)"

lemma l0_loop_eq:
  "l0_loop t m its (d, l) =
     (d @ filter (\<lambda>i. MaxTXID i \<le> m) (takeWhile (l0_old t) its),
      if \<forall>i\<in>set its. l0_old t i then (if its = [] then l else MaxTXID (last its) \<le> m) else False,
      \<forall>i\<in>set its. l0_old t i)"
  by (induction its arbitrary: d l) (auto simp: l0_old_def Let_def)

definition l0_deleted :: "instant \<Rightarrow> txid \<Rightarrow> FileInfo list \<Rightarrow> FileInfo list" where
  "l0_deleted t m its = filter (\<lambda>i. MaxTXID i \<le> m) (takeWhile (l0_old t) (butlast its))"

lemma l0_trim:
  assumes "l0_loop t m its ([], False) = (d, l, all)"
  shows "(if all \<and> length d > 0 \<and> l then butlast d else d) = l0_deleted t m its"
proof -
  let ?P = "\<lambda>i. MaxTXID i \<le> m"
  have d: "d = filter ?P (takeWhile (l0_old t) its)" and all: "all = (\<forall>i\<in>set its. l0_old t i)"
    and l: "all \<Longrightarrow> l = (its \<noteq> [] \<and> ?P (last its))"
    using assms by (auto simp: l0_loop_eq split: if_splits)
  show ?thesis
  proof (cases all)
    case True
    then have tw: "takeWhile (l0_old t) its = its" "takeWhile (l0_old t) (butlast its) = butlast its"
      using all by (auto simp: takeWhile_eq_all_conv dest: in_set_butlastD)
    show ?thesis unfolding l0_deleted_def d tw using True l trim_filter [of ?P its] by auto
  next
    case False
    then have "takeWhile (l0_old t) its = takeWhile (l0_old t) (butlast its)"
      using all by (cases its rule: rev_cases) (auto simp: takeWhile_append intro!: sym [OF takeWhile_eq_all_conv [THEN iffD2]])
    with False d show ?thesis by (simp add: l0_deleted_def)
  qed
qed

lemma fold_max_info:
  "fold (\<lambda>item info. if MaxTXID item > MaxTXID info then item else info) its i0 \<in> insert i0 (set its) \<and>
   (\<forall>i\<in>insert i0 (set its). MaxTXID i \<le> MaxTXID (fold (\<lambda>item info. if MaxTXID item > MaxTXID info then item else info) its i0))"
proof (induction its arbitrary: i0)
  case (Cons x its)
  show ?case using Cons [of "if MaxTXID x > MaxTXID i0 then x else i0"] by (auto split: if_splits)
qed simp

lemma max_info_props:
  assumes "its \<noteq> []" and "\<forall>i\<in>set its. 0 < MaxTXID i"
  shows "max_info its \<in> set its \<and> (\<forall>i\<in>set its. MaxTXID i \<le> MaxTXID (max_info its))"
proof -
  obtain x where "x \<in> set its" using assms(1) by (cases its) auto
  then have "max_info its \<noteq> zero_info"
    using fold_max_info [of its zero_info] assms(2) by (auto simp: max_info_def zero_info_def)
  then show ?thesis using fold_max_info [of its zero_info] by (auto simp: max_info_def)
qed

lemma fold_min_txid:
  assumes "\<forall>i\<in>set its. 0 < MaxTXID i"
  shows "fold (\<lambda>i m. if m = 0 \<or> MaxTXID i < m then MaxTXID i else m) its m =
         (if its = [] then m else if m = 0 then Min (MaxTXID ` set its) else Min (insert m (MaxTXID ` set its)))"
  using assms
proof (induction its arbitrary: m)
  case (Cons x its)
  show ?case
  proof (cases "its = []")
    case False
    then show ?thesis using Cons by (auto simp: min_def Min_insert2 not_less)
  qed (use Cons.prems in \<open>auto simp: min_def\<close>)
qed simp

lemma fold_max_in: "fold (\<lambda>i m. if MaxTXID i > m then MaxTXID i else m) its m \<in> insert m (MaxTXID ` set its)"
proof (induction its arbitrary: m)
  case (Cons x its)
  show ?case using Cons [of "if MaxTXID x > m then MaxTXID x else m"] by (auto split: if_splits)
qed simp

subsection \<open>Contiguous listings\<close>

definition wf_infos :: "FileInfo list \<Rightarrow> bool" where
  "wf_infos its \<longleftrightarrow> (\<forall>i\<in>set its. 0 < MinTXID i \<and> MinTXID i \<le> MaxTXID i \<and> MaxTXID i < 2 ^ 64 - 1)"

lemma wf_infos_simps [simp]:
  "wf_infos []" "wf_infos (i # its) \<longleftrightarrow> 0 < MinTXID i \<and> MinTXID i \<le> MaxTXID i \<and> MaxTXID i < 2 ^ 64 - 1 \<and> wf_infos its"
  by (auto simp: wf_infos_def)

lemma contiguous_simps [simp]: "contiguous []" "contiguous [a]"
  by (simp_all add: contiguous_def)

lemma contiguous_Cons: "contiguous (a # b # its) \<longleftrightarrow> MinTXID b = MaxTXID a + 1 \<and> contiguous (b # its)"
  by (simp add: contiguous_def)

lemma contiguous_ConsD: "contiguous (a # its) \<Longrightarrow> contiguous its"
  by (cases its) (auto simp: contiguous_def)

lemma contiguous_append:
  "contiguous (xs @ ys) \<longleftrightarrow> contiguous xs \<and> contiguous ys \<and> (xs = [] \<or> ys = [] \<or> MinTXID (hd ys) = MaxTXID (last xs) + 1)"
  by (auto simp: contiguous_def successively_append_iff)

lemma contiguous_less:
  "contiguous (a # its) \<Longrightarrow> wf_infos (a # its) \<Longrightarrow> i \<in> set its \<Longrightarrow> MaxTXID a < MinTXID i"
proof (induction its arbitrary: a)
  case (Cons b its)
  then have "MaxTXID a < MinTXID b" "MinTXID b \<le> MaxTXID b" by (auto simp: contiguous_Cons)
  moreover have "i = b \<or> MaxTXID b < MinTXID i" using Cons by (auto simp: contiguous_Cons)
  ultimately show ?case by auto
qed simp

lemma contiguous_hd_last:
  assumes "its \<noteq> []" and "contiguous its" and "wf_infos its"
  shows "MinTXID (hd its) \<le> MaxTXID (last its)"
proof (cases its)
  case (Cons a bs)
  show ?thesis
  proof (cases "bs = []")
    case False
    then have "last bs \<in> set bs" by simp
    then have "MaxTXID a < MinTXID (last bs)" "MinTXID (last bs) \<le> MaxTXID (last bs)" "MinTXID a \<le> MaxTXID a"
      using contiguous_less [of a bs "last bs"] assms Cons by (auto simp: wf_infos_def)
    then show ?thesis using False Cons by simp
  qed (use assms Cons in auto)
qed (use assms in simp)

lemma contiguous_strict: "contiguous its \<Longrightarrow> wf_infos its \<Longrightarrow> sorted_wrt (<) (map MinTXID its) \<and> sorted_wrt (<) (map MaxTXID its)"
proof (induction its)
  case (Cons a its)
  then show ?case
    using contiguous_less [OF Cons.prems] contiguous_ConsD [OF Cons.prems(1)] by (fastforce simp: wf_infos_def)
qed simp

lemma filter_takeWhile_sorted:
  "sorted (map f xs) \<Longrightarrow> filter (\<lambda>x. f x \<le> (m :: nat)) xs = takeWhile (\<lambda>x. f x \<le> m) xs"
  by (induction xs) (use hd_in_set in \<open>fastforce simp: takeWhile_eq_Nil_iff\<close>)+

lemma takeWhile_prefix: "\<exists>k. takeWhile P xs = take k xs"
  by (metis takeWhile_eq_take)

text \<open>On a contiguous level the files that \<open>EnforceL0Retention\<close> deletes are the first ones.\<close>

lemma l0_deleted_prefix:
  assumes "contiguous its" and "wf_infos its"
  shows "\<exists>k. l0_deleted t m its = take k its"
proof -
  have s: "sorted (map MaxTXID its)" using contiguous_strict [OF assms] by (simp add: strict_sorted_imp_sorted)
  obtain k where k: "takeWhile (l0_old t) (butlast its) = take k its"
    by (metis butlast_conv_take take_take takeWhile_prefix)
  have "sorted (map MaxTXID (take k its))" using s by (metis sorted_wrt_take take_map)
  then obtain k' where "filter (\<lambda>i. MaxTXID i \<le> m) (take k its) = take k' (take k its)"
    using filter_takeWhile_sorted takeWhile_prefix by metis
  then show ?thesis by (simp add: l0_deleted_def k) (metis take_take)
qed

text \<open>A listing with strictly increasing TXIDs is determined by its set.\<close>

lemma listing_unique:
  assumes "sorted_wrt (<) (map MinTXID xs)" and "set ys = set xs" and "sorted (map MinTXID ys)" and "distinct ys"
  shows "ys = xs"
proof -
  have dx: "distinct (map MinTXID xs)" using assms(1) by (simp add: strict_sorted_iff)
  then have inj: "inj_on MinTXID (set xs)" by (simp add: distinct_map)
  have dy: "distinct (map MinTXID ys)" using assms(2,4) inj by (simp add: distinct_map)
  have "map MinTXID ys = map MinTXID xs"
    using assms(1,2,3) dx dy by (intro sorted_distinct_set_unique) (auto simp: strict_sorted_imp_sorted)
  then show ?thesis using inj assms(2) by (metis map_inj_on sup.idem)
qed

subsection \<open>Retention on a client that keeps the contract\<close>

context replica_client begin

lemma apply_deletes_files:
  assumes "cp_client c = client" and "inv (remote w)" and "RetentionEnabled c"
    and "\<forall>i\<in>set deleted. txid_ok (MinTXID i) \<and> txid_ok (MaxTXID i)"
    and "apply_deletes c w level msg deleted = (None, w')"
  shows "inv (remote w') \<and> files (remote w') = files (remote w) |` (- key ` set deleted)"
  using assms delete_ok [of "remote w" deleted] by (auto simp: apply_deletes_def split: prod.splits option.splits)

lemma apply_deletes_disabled:
  assumes "\<not> RetentionEnabled c"
  shows "fst (apply_deletes c w level msg deleted) = None \<and> remote (snd (apply_deletes c w level msg deleted)) = remote w"
  using assms by (simp add: apply_deletes_def)

text \<open>A listing without its last item never holds the key of the last item.\<close>

lemma last_key_kept:
  assumes "inv s" "LTXFiles client s level seek um = Inr it" "iter_err it = None" "iter_items it \<noteq> []"
  shows "key (last (iter_items it)) \<notin> key ` set (butlast (iter_items it))"
proof
  let ?its = "iter_items it"
  assume "key (last ?its) \<in> key ` set (butlast ?its)"
  then obtain i where i: "i \<in> set (butlast ?its)" "key i = key (last ?its)" by force
  have "\<exists>bs. files s (key j) = Some (bs, CreatedAt j) \<and> FSize j = length bs" if "j \<in> set ?its" for j
    using list_items [OF assms(1-3) that] by blast
  moreover have "i \<in> set ?its" "last ?its \<in> set ?its" using i assms(4) by (auto dest: in_set_butlastD)
  ultimately have "i = last ?its" using i(2) by (metis FileInfo.equality Pair_inject old.unit.exhaust option.inject)
  moreover have "distinct ?its" using list_sorted [OF assms(1,2)] by simp
  ultimately show False using i(1) assms(4) by (metis append_butlast_last_id distinct_append disjoint_insert(1) list.set(2))
qed

text \<open>Deleting items other than the last one of a level's listing: only those objects go, and the last one stays.\<close>

lemma delete_butlast:
  assumes it: "inv s" "LTXFiles client s level 0 um = Inr it" "iter_err it = None"
    and sub: "set deleted \<subseteq> set (butlast (iter_items it))"
    and fs: "files s' = files s |` (- key ` set deleted)" and k: "files s k = Some v" "files s' k \<noteq> Some v"
  shows "(\<exists>i\<in>set deleted. key i = k \<and> CreatedAt i = snd v) \<and> fst k = level \<and>
         (\<exists>k' v'. fst k' = level \<and> files s' k' = Some v' \<and> fst (snd k) \<le> fst (snd k'))"
proof -
  let ?its = "iter_items it"
  obtain i where i: "i \<in> set deleted" "k = key i" using k fs by (auto simp: restrict_map_def split: if_splits)
  then have mem: "i \<in> set ?its" "?its \<noteq> []" using sub by (auto dest: in_set_butlastD)
  note li = list_items [OF it mem(1)]
  have lm: "last ?its \<in> set ?its" using mem by simp
  note ll = list_items [OF it lm]
  have "key (last ?its) \<notin> key ` set deleted" using last_key_kept [OF it mem(2)] sub by blast
  then have kept: "files s' (key (last ?its)) = files s (key (last ?its))" using fs by simp
  have "MinTXID i \<le> MinTXID (last ?its)"
    using list_sorted [OF it(1,2)] mem by (cases ?its rule: rev_cases) (auto simp: sorted_append)
  with kept ll li i(2) have "\<exists>k' v'. fst k' = level \<and> files s' k' = Some v' \<and> fst (snd k) \<le> fst (snd k')"
    by (intro exI [of _ "key (last ?its)"]) auto
  moreover have "\<exists>i\<in>set deleted. key i = k \<and> CreatedAt i = snd v" using i li k(1) by (intro bexI [of _ i]) auto
  ultimately show ?thesis using i(2) li by auto
qed

lemma snapshot_retention_law:
  assumes c: "cp_client c = client" "inv (remote w)" "RetentionEnabled c"
    and it: "LTXFiles client (remote w) SnapshotLevel 0 False = Inr it" "iter_err it = None"
    and run: "EnforceSnapshotRetention c w now retention = (Inr t, w')"
  defines "old \<equiv> \<lambda>i. CreatedAt i < now - retention"
  shows "inv (remote w') \<and> files (remote w') = files (remote w) |` (- key ` set (filter old (butlast (iter_items it)))) \<and>
         t = fold (\<lambda>i m. if m = 0 \<or> MaxTXID i < m then MaxTXID i else m) (filter (\<lambda>i. \<not> old i) (iter_items it)) 0"
proof -
  let ?d = "filter old (butlast (iter_items it))"
  have ap: "apply_deletes c w SnapshotLevel ''remove ltx files'' ?d = (None, w')"
    and t: "t = fold (\<lambda>i m. if m = 0 \<or> MaxTXID i < m then MaxTXID i else m) (filter (\<lambda>i. \<not> old i) (iter_items it)) 0"
    using run trim_filter [of old "iter_items it"]
    by (auto simp: EnforceSnapshotRetention_def c it snapshot_loop_eq old_def Let_def split: prod.splits option.splits if_splits)
  have "\<forall>i\<in>set ?d. txid_ok (MinTXID i) \<and> txid_ok (MaxTXID i)"
    using list_items [OF c(2) it] by (auto dest: in_set_butlastD)
  from apply_deletes_files [OF c this ap] t show ?thesis by simp
qed

lemma txid_retention_law:
  assumes c: "cp_client c = client" "inv (remote w)" "RetentionEnabled c"
    and it: "LTXFiles client (remote w) level 0 False = Inr it" "iter_err it = None"
    and run: "EnforceRetentionByTXID c w level txID = (None, w')"
  shows "inv (remote w') \<and>
         files (remote w') = files (remote w) |` (- key ` set (filter (\<lambda>i. MaxTXID i < txID) (butlast (iter_items it))))"
proof -
  let ?d = "filter (\<lambda>i. MaxTXID i < txID) (butlast (iter_items it))"
  have ap: "apply_deletes c w level ''remove ltx files'' ?d = (None, w')"
    using run trim_filter [of "\<lambda>i. MaxTXID i < txID" "iter_items it"]
    by (auto simp: EnforceRetentionByTXID_def c it txid_loop_eq Let_def split: if_splits)
  have "\<forall>i\<in>set ?d. txid_ok (MinTXID i) \<and> txid_ok (MaxTXID i)"
    using list_items [OF c(2) it] by (auto dest: in_set_butlastD)
  from apply_deletes_files [OF c this ap] show ?thesis by simp
qed

lemma l0_retention_law:
  assumes c: "cp_client c = client" "inv (remote w)" "RetentionEnabled c" "0 < retention"
    and it1: "LTXFiles client (remote w) 1 0 False = Inr it1" "iter_err it1 = None"
    and it: "LTXFiles client (remote w) 0 0 False = Inr it" "iter_err it = None"
    and run: "EnforceL0Retention c w now retention = (None, w')"
  defines "m \<equiv> fold (\<lambda>info m. if MaxTXID info > m then MaxTXID info else m) (iter_items it1) 0"
  shows "inv (remote w') \<and> (\<exists>d. files (remote w') = files (remote w) |` (- key ` set d) \<and>
           (d = [] \<or> 0 < m \<and> d = l0_deleted (now - retention) m (iter_items it)))"
proof (cases "m = 0 \<or> l0_deleted (now - retention) m (iter_items it) = []")
  case True
  have "w' = w"
  proof (cases "m = 0")
    case False
    with True have "l0_deleted (now - retention) m (iter_items it) = []" by simp
    with False run show ?thesis
      using l0_trim [of "now - retention" m "iter_items it"]
      by (auto simp: EnforceL0Retention_def c it1 it m_def [symmetric] Let_def split: prod.splits if_splits)
  qed (use run c(4) in \<open>auto simp: EnforceL0Retention_def c it1 m_def\<close>)
  then show ?thesis using c(2) by (intro conjI exI [of _ "[]"]) (auto simp: restrict_map_def)
next
  case False
  let ?d = "l0_deleted (now - retention) m (iter_items it)"
  have ap: "apply_deletes c w 0 ''remove expired l0 files'' ?d = (None, w')"
    using run False c(4) l0_trim [of "now - retention" m "iter_items it"]
    by (auto simp: EnforceL0Retention_def c it1 it m_def [symmetric] Let_def split: prod.splits if_splits)
  have "\<forall>i\<in>set ?d. txid_ok (MinTXID i) \<and> txid_ok (MaxTXID i)"
    using list_items [OF c(2) it] by (auto simp: l0_deleted_def dest!: set_takeWhileD in_set_butlastD)
  from apply_deletes_files [OF c(1-3) this ap] False show ?thesis by auto
qed

lemma l0_retention_listing:
  assumes it: "inv s" "LTXFiles client s 0 0 um = Inr it" "iter_err it = None" and ok: "contiguous (iter_items it)" "wf_infos (iter_items it)"
    and d: "d = [] \<or> d = l0_deleted t m (iter_items it)" and s': "inv s'" "files s' = files s |` (- key ` set d)"
    and it': "LTXFiles client s' 0 0 um' = Inr it'" "iter_err it' = None"
  shows "\<exists>k. iter_items it' = drop k (iter_items it) \<and> contiguous (iter_items it')"
proof -
  let ?its = "iter_items it"
  obtain k where k: "d = take k ?its" using d l0_deleted_prefix [OF ok, of t m] by (metis take0)
  have strict: "sorted_wrt (<) (map MinTXID ?its)" using contiguous_strict [OF ok] by simp
  then have dist: "distinct (map MinTXID ?its)" by (simp add: strict_sorted_iff)
  have "set (iter_items it') = {i \<in> set ?its. key i \<notin> key ` set d}"
    using list_ok [OF s'(1) it'] list_ok [OF it] by (simp add: s'(2) listing_restrict)
  also have "\<dots> = set (drop k ?its)"
  proof -
    have "map MinTXID ?its = map MinTXID (take k ?its) @ map MinTXID (drop k ?its)" by (metis append_take_drop_id map_append)
    then have "MinTXID ` set (take k ?its) \<inter> MinTXID ` set (drop k ?its) = {}"
      using dist by (metis distinct_append set_map)
    moreover have "set ?its = set (take k ?its) \<union> set (drop k ?its)" by (metis append_take_drop_id set_append)
    ultimately show ?thesis unfolding k by auto
  qed
  finally have "iter_items it' = drop k ?its"
    using list_sorted [OF s'(1) it'(1)] strict
    by (intro listing_unique) (auto simp: drop_map [symmetric] intro: sorted_wrt_drop)
  moreover have "contiguous (drop k ?its)" using ok(1) contiguous_append [of "take k ?its" "drop k ?its"] by simp
  ultimately show ?thesis by auto
qed

end

subsection \<open>Compaction on a client that keeps the contract\<close>

lemma compact_sources_tail:
  "compact_sources cd c w l its (mn, mx, rs) = Inr (mn', mx', rs') \<Longrightarrow> 0 < mn \<Longrightarrow>
   \<forall>i\<in>set its. mn \<le> MinTXID i \<and> mx < MaxTXID i \<Longrightarrow> sorted_wrt (<) (map MaxTXID its) \<Longrightarrow>
   mn' = mn \<and> mx' = (if its = [] then mx else MaxTXID (last its)) \<and> length rs' = length rs + length its"
proof (induction its arbitrary: mx rs)
  case (Cons i its)
  obtain f where "open_source cd c w l i = Inr f"
    "compact_sources cd c w l its (mn, MaxTXID i, rs @ [f]) = Inr (mn', mx', rs')"
    using Cons.prems by (auto simp: Let_def split: sum.splits)
  with Cons.IH [OF this(2)] Cons.prems show ?case by auto
qed simp

lemma compact_sources_range:
  assumes "compact_sources cd c w l its (0, 0, []) = Inr (mn, mx, rs)" and "its \<noteq> []" and "contiguous its" and "wf_infos its"
  shows "mn = MinTXID (hd its) \<and> mx = MaxTXID (last its) \<and> rs \<noteq> []"
proof -
  obtain i js where its: "its = i # js" using assms(2) by (cases its) auto
  obtain f where "compact_sources cd c w l js (MinTXID i, MaxTXID i, [f]) = Inr (mn, mx, rs)"
    using assms(1) its by (auto simp: Let_def split: sum.splits)
  moreover have "\<forall>j\<in>set js. MinTXID i \<le> MinTXID j \<and> MaxTXID i < MaxTXID j" "sorted_wrt (<) (map MaxTXID js)"
    using contiguous_strict [OF assms(3,4)] its by auto
  ultimately show ?thesis
    using compact_sources_tail [of cd c w l js "MinTXID i" "MaxTXID i" "[f]" mn mx rs] assms(4) its by auto
qed

lemma compact_sources_txid_ok:
  "compact_sources cd c w l its (mn, mx, rs) = Inr (mn', mx', rs') \<Longrightarrow> txid_ok mn \<Longrightarrow> txid_ok mx \<Longrightarrow>
   \<forall>i\<in>set its. txid_ok (MinTXID i) \<and> txid_ok (MaxTXID i) \<Longrightarrow> txid_ok mn' \<and> txid_ok mx'"
proof (induction its arbitrary: mn mx rs)
  case (Cons i its)
  obtain f where "compact_sources cd c w l its
      (if mn = 0 \<or> MinTXID i < mn then MinTXID i else mn, if mx = 0 \<or> MaxTXID i > mx then MaxTXID i else mx, rs @ [f]) = Inr (mn', mx', rs')"
    using Cons.prems(1) by (auto simp: Let_def split: sum.splits)
  from Cons.IH [OF this] Cons.prems(2-4) show ?case by auto
qed simp

lemma cp_MaxLTXFileInfo_remote: "remote (snd (cp_MaxLTXFileInfo c w level)) = remote w"
  by (simp add: cp_MaxLTXFileInfo_def Let_def split: option.splits sum.splits)

text \<open>A compaction that succeeds has listed the sources behind the newest destination file and written one file.\<close>

lemma Compact_written:
  assumes "Compact cd c w dst = (Inr info, w')" and "cp_MaxLTXFileInfo c w dst = ((prev, e), w1)"
  shows "e = None \<and> (\<exists>sit mn mx rdrs.
           LTXFiles (cp_client c) (remote w) (dst - 1) (next_txid (MaxTXID prev)) False = Inr sit \<and>
           compact_sources cd c w1 (dst - 1) (iter_items sit) (0, 0, []) = Inr (mn, mx, rdrs) \<and> rdrs \<noteq> [] \<and>
           WriteLTXFile (cp_client c) (remote w) dst mn mx (compact_pipe cd (AgeRecipients c) rdrs) = (Inr info, remote w'))"
proof -
  have "remote w1 = remote w" using cp_MaxLTXFileInfo_remote [of c w dst] assms(2) by simp
  then show ?thesis
    using assms by (auto simp: Compact_def Let_def split: option.splits sum.splits prod.splits if_splits)
qed

context replica_client begin

lemma Compact_stored:
  assumes c: "cp_client c = client" "inv (remote w)"
    and sit: "LTXFiles client (remote w) l seek False = Inr sit"
    and r: "compact_sources cd c w1 l (iter_items sit) (0, 0, []) = Inr (mn, mx, rdrs)"
    and wr: "WriteLTXFile client (remote w) dst mn mx (compact_pipe cd (AgeRecipients c) rdrs) = (Inr info, s')"
  shows "inv s' \<and> key info = (dst, mn, mx) \<and>
         (\<exists>bs. compact_pipe cd (AgeRecipients c) rdrs = (bs, None) \<and> FSize info = length bs \<and>
            files s' = (files (remote w))(key info \<mapsto> (bs, CreatedAt info)))"
proof -
  have "txid_ok mn" "txid_ok mx"
    using compact_sources_txid_ok [OF r] list_items_any [OF c(2) sit] by auto
  moreover obtain bs e where pipe: "compact_pipe cd (AgeRecipients c) rdrs = (bs, e)" by (metis prod.exhaust)
  ultimately show ?thesis using write_ok [OF c(2) _ _ wr [unfolded pipe]] pipe by auto
qed

lemma Compact_law:
  assumes c: "cp_client c = client" "inv (remote w)" "CacheGetter c = None"
    and dit: "LTXFiles client (remote w) dst 0 False = Inr dit"
    and sit: "LTXFiles client (remote w) (dst - 1) (next_txid (MaxTXID (max_info (iter_items dit)))) False = Inr sit"
    and ok: "contiguous (iter_items sit)" "wf_infos (iter_items sit)"
    and run: "Compact cd c w dst = (Inr info, w')"
  shows "inv (remote w') \<and> iter_items sit \<noteq> [] \<and> key info = (dst, MinTXID (hd (iter_items sit)), MaxTXID (last (iter_items sit))) \<and>
         (\<exists>bs. FSize info = length bs \<and> files (remote w') = (files (remote w))(key info \<mapsto> (bs, CreatedAt info)))"
proof -
  have "fst (fst (cp_MaxLTXFileInfo c w dst)) = max_info (iter_items dit)"
    using c dit by (auto simp: cp_MaxLTXFileInfo_def Let_def split: option.splits)
  then obtain e w1 where m: "cp_MaxLTXFileInfo c w dst = ((max_info (iter_items dit), e), w1)"
    by (metis prod.collapse)
  obtain mn mx rdrs where r: "compact_sources cd c w1 (dst - 1) (iter_items sit) (0, 0, []) = Inr (mn, mx, rdrs)" "rdrs \<noteq> []"
      "WriteLTXFile client (remote w) dst mn mx (compact_pipe cd (AgeRecipients c) rdrs) = (Inr info, remote w')"
    using Compact_written [OF run m] sit c(1) by auto
  have ne: "iter_items sit \<noteq> []" using r(1,2) by auto
  from Compact_stored [OF c(1,2) sit r(1,3)] compact_sources_range [OF r(1) ne ok] ne show ?thesis by auto
qed

lemma Compact_listing:
  assumes dit: "inv s" "LTXFiles client s dst 0 um = Inr dit" "iter_err dit = None"
    and ok: "contiguous (iter_items dit @ [info])" "wf_infos (iter_items dit @ [info])"
    and s': "inv s'" "files s' = (files s)(key info \<mapsto> (bs, CreatedAt info))" "FLevel info = dst" "FSize info = length bs"
    and dit': "LTXFiles client s' dst 0 um' = Inr dit'" "iter_err dit' = None"
  shows "iter_items dit' = iter_items dit @ [info]"
proof (rule listing_unique)
  show strict: "sorted_wrt (<) (map MinTXID (iter_items dit @ [info]))" using contiguous_strict [OF ok] by simp
  have new: "info = info_of (key info) (bs, CreatedAt info)" using s'(4) by (cases info) (simp add: info_of_def)
  have fresh: "files s (key info) = None"
  proof (rule ccontr)
    assume "files s (key info) \<noteq> None"
    then have "info_of (key info) (the (files s (key info))) \<in> set (iter_items dit)"
      using list_complete [OF dit, of "MinTXID info" "MaxTXID info"] s'(3) by auto
    moreover have "MinTXID (info_of (key info) v) = MinTXID info" for v by (simp add: info_of_def)
    moreover have "\<forall>i\<in>set (iter_items dit). MinTXID i < MinTXID info" using strict by (auto simp: sorted_wrt_append)
    ultimately show False by (metis less_irrefl)
  qed
  have "listing (files s') dst 0 = insert info (listing (files s) dst 0)"
    using listing_update [of "files s" dst "MinTXID info" "MaxTXID info" 0] fresh new s'(2,3) by simp
  then show "set (iter_items dit') = set (iter_items dit @ [info])"
    using list_ok [OF dit] list_ok [OF s'(1) dit'] by simp
  show "sorted (map MinTXID (iter_items dit'))" "distinct (iter_items dit')" using list_sorted [OF s'(1) dit'(1)] by auto
qed

end

text \<open>A world around a store, for the witnesses.\<close>

definition world :: "'s \<Rightarrow> ('s, unit) cworld" where
  "world s = \<lparr>remote = s, local = (), cache = [], verify_errors = 0\<rparr>"

lemma world_simps [simp]: "remote (world s) = s" "cp_client (NewCompactor cl) = cl" "RetentionEnabled (NewCompactor cl)"
    "CacheGetter (NewCompactor cl) = None"
  by (simp_all add: world_def NewCompactor_def)

subsection \<open>Properties: retention\<close>



text \<open>
  C14. Retention by TXID deletes only files of the given level that end before the given TXID, and keeps at
  least the last file of the level.
\<close>

theorem txid_retention_safe:
  assumes "replica_client client files okay" and "cp_client c = client" and "okay (remote w)" and "RetentionEnabled c"
    and "LTXFiles client (remote w) level 0 False = Inr it" and "iter_err it = None"
    and "EnforceRetentionByTXID c w level txID = (None, w')"
  shows "okay (remote w') \<and> files (remote w') \<subseteq>\<^sub>m files (remote w) \<and>
         (\<forall>k v. files (remote w) k = Some v \<and> files (remote w') k \<noteq> Some v \<longrightarrow>
            fst k = level \<and> snd (snd k) < txID \<and>
            (\<exists>k' v'. fst k' = level \<and> files (remote w') k' = Some v' \<and> fst (snd k) \<le> fst (snd k')))"
proof -
  let ?d = "filter (\<lambda>i. MaxTXID i < txID) (butlast (iter_items it))"
  note law = replica_client.txid_retention_law [OF assms]
  have del: "(\<exists>i\<in>set ?d. key i = k \<and> CreatedAt i = snd v) \<and> fst k = level \<and>
         (\<exists>k' v'. fst k' = level \<and> files (remote w') k' = Some v' \<and> fst (snd k) \<le> fst (snd k'))"
    if "files (remote w) k = Some v" "files (remote w') k \<noteq> Some v" for k v
    by (rule replica_client.delete_butlast [OF assms(1,3,5,6) _ _ that]) (use law in auto)
  have "files (remote w') \<subseteq>\<^sub>m files (remote w)" using law by (auto simp: map_le_def restrict_map_def split: if_splits)
  with del law show ?thesis by fastforce
qed

theorem txid_retention_safe_witness:
  "\<exists>w'. let s = mem_fs [((1, 1, 2), ([1], 5)), ((1, 3, 4), ([1], 6)), ((1, 5, 6), ([1], 7))] in
     EnforceRetentionByTXID (NewCompactor doc_client) (world s) 1 100 = (None, w') \<and>
     file_objects doc_FormatFilename (remote w') \<subseteq>\<^sub>m file_objects doc_FormatFilename s"
proof -
  define s where "s = mem_fs [((1, 1, 2), ([1], 5)), ((1, 3, 4), ([1], 6)), ((1, 5, 6), ([1], 7))]"
  have "case LTXFiles doc_client s 1 0 False of Inl _ \<Rightarrow> False | Inr it \<Rightarrow> iter_err it = None" unfolding s_def by code_simp
  then obtain it where it: "LTXFiles doc_client s 1 0 False = Inr it" "iter_err it = None"
    by (cases "LTXFiles doc_client s 1 0 False") auto
  have "fst (EnforceRetentionByTXID (NewCompactor doc_client) (world s) 1 100) = None" unfolding s_def by code_simp
  then obtain w' where run: "EnforceRetentionByTXID (NewCompactor doc_client) (world s) 1 100 = (None, w')"
    by (metis prod.collapse)
  have inv: "fs_inv doc_FormatFilename doc_ParseFilename s" unfolding s_def by (intro fs_inv_mem) simp
  from txid_retention_safe [OF doc_client_contract, of "NewCompactor doc_client" "world s", unfolded world_simps,
      OF refl inv world_simps(3) it run] run show ?thesis unfolding s_def Let_def by blast
qed

text \<open>
  C15. L0 retention only deletes what L1 has and what is old, and it keeps L0 contiguous: every L0 file that
  is gone was created before the threshold (or has no creation time), an L1 file reaches at least as far, and
  a newer L0 file remains; if the L0 files were contiguous they still are, the deleted ones being the first.
\<close>

theorem l0_retention_safe:
  assumes "replica_client client files okay" and "cp_client c = client" and "okay (remote w)" and "RetentionEnabled c"
    and "0 < retention"
    and "LTXFiles client (remote w) 1 0 False = Inr it1" and "iter_err it1 = None"
    and "LTXFiles client (remote w) 0 0 False = Inr it" and "iter_err it = None"
    and "EnforceL0Retention c w now retention = (None, w')"
  shows "okay (remote w') \<and> files (remote w') \<subseteq>\<^sub>m files (remote w) \<and>
         (\<forall>k v. files (remote w) k = Some v \<and> files (remote w') k \<noteq> Some v \<longrightarrow>
            fst k = 0 \<and> (snd v = 0 \<or> snd v \<le> now - retention) \<and>
            (\<exists>k1 v1. fst k1 = 1 \<and> files (remote w') k1 = Some v1 \<and> snd (snd k) \<le> snd (snd k1)) \<and>
            (\<exists>k' v'. fst k' = 0 \<and> files (remote w') k' = Some v' \<and> fst (snd k) \<le> fst (snd k'))) \<and>
         (contiguous (iter_items it) \<and> wf_infos (iter_items it) \<longrightarrow>
            (\<forall>um it'. LTXFiles client (remote w') 0 0 um = Inr it' \<and> iter_err it' = None \<longrightarrow>
               (\<exists>n. iter_items it' = drop n (iter_items it) \<and> contiguous (iter_items it'))))"
proof -
  let ?t = "now - retention" and ?its = "iter_items it"
  let ?m = "fold (\<lambda>info m. if MaxTXID info > m then MaxTXID info else m) (iter_items it1) 0"
  obtain d where d: "okay (remote w')" "files (remote w') = files (remote w) |` (- key ` set d)"
      "d = [] \<or> 0 < ?m \<and> d = l0_deleted ?t ?m ?its"
    using replica_client.l0_retention_law [OF assms] by blast
  have sub: "set d \<subseteq> set (butlast ?its)" and dd: "\<forall>i\<in>set d. l0_old ?t i \<and> MaxTXID i \<le> ?m"
    using d(3) by (auto simp: l0_deleted_def dest: set_takeWhileD)
  have level: "\<forall>i\<in>set d. FLevel i = 0"
    using replica_client.list_items [OF assms(1,3,8,9)] sub by (auto dest: in_set_butlastD)
  have gone: "fst k = 0 \<and> (snd v = 0 \<or> snd v \<le> ?t) \<and>
            (\<exists>k1 v1. fst k1 = 1 \<and> files (remote w') k1 = Some v1 \<and> snd (snd k) \<le> snd (snd k1)) \<and>
            (\<exists>k' v'. fst k' = 0 \<and> files (remote w') k' = Some v' \<and> fst (snd k) \<le> fst (snd k'))"
    if kv: "files (remote w) k = Some v" "files (remote w') k \<noteq> Some v" for k v
  proof -
    note del = replica_client.delete_butlast [OF assms(1,3,8,9) sub d(2) kv]
    then obtain i where i: "i \<in> set d" "key i = k" "CreatedAt i = snd v" by blast
    have "0 < ?m" using d(3) i(1) by auto
    then obtain j where j: "j \<in> set (iter_items it1)" "MaxTXID j = ?m"
      using fold_max_in [of "iter_items it1" 0] by auto
    then have "\<exists>v1. files (remote w) (key j) = Some v1" "FLevel j = 1"
      using replica_client.list_items [OF assms(1,3,6,7) j(1)] by auto
    moreover from this have "key j \<notin> key ` set d" using level by auto
    ultimately have "\<exists>k1 v1. fst k1 = 1 \<and> files (remote w') k1 = Some v1 \<and> snd (snd k) \<le> snd (snd k1)"
      using d(2) dd i j by (intro exI [of _ "key j"]) auto
    then show ?thesis using del dd i by (auto simp: l0_old_def)
  qed
  have le: "files (remote w') \<subseteq>\<^sub>m files (remote w)" using d(2) by (auto simp: map_le_def restrict_map_def split: if_splits)
  have lst: "\<exists>n. iter_items it' = drop n ?its \<and> contiguous (iter_items it')"
    if "contiguous ?its" "wf_infos ?its" "LTXFiles client (remote w') 0 0 um = Inr it'" "iter_err it' = None" for um it'
    using replica_client.l0_retention_listing [OF assms(1,3,8,9) that(1,2) _ d(1,2) that(3,4)] d(3) by blast
  show ?thesis
    by (intro conjI d(1) le) (intro allI impI, elim conjE, rule gone, assumption+, intro impI allI, elim conjE, rule lst, assumption+)
qed

theorem l0_retention_safe_witness:
  "\<exists>w'. let s = mem_fs [((1, 1, 3), ([1], 5)), ((0, 1, 1), ([1], 10)), ((0, 2, 2), ([1], 20)), ((0, 3, 3), ([1], 1000))] in
     EnforceL0Retention (NewCompactor doc_client) (world s) 1000 500 = (None, w') \<and>
     file_objects doc_FormatFilename (remote w') \<subseteq>\<^sub>m file_objects doc_FormatFilename s"
proof -
  define s where "s = mem_fs [((1, 1, 3), ([1], 5)), ((0, 1, 1), ([1], 10)), ((0, 2, 2), ([1], 20)), ((0, 3, 3), ([1], 1000))]"
  have "case LTXFiles doc_client s 1 0 False of Inl _ \<Rightarrow> False | Inr it \<Rightarrow> iter_err it = None" unfolding s_def by code_simp
  then obtain it1 where it1: "LTXFiles doc_client s 1 0 False = Inr it1" "iter_err it1 = None"
    by (cases "LTXFiles doc_client s 1 0 False") auto
  have "case LTXFiles doc_client s 0 0 False of Inl _ \<Rightarrow> False | Inr it \<Rightarrow> iter_err it = None" unfolding s_def by code_simp
  then obtain it where it: "LTXFiles doc_client s 0 0 False = Inr it" "iter_err it = None"
    by (cases "LTXFiles doc_client s 0 0 False") auto
  have "fst (EnforceL0Retention (NewCompactor doc_client) (world s) 1000 500) = None" unfolding s_def by code_simp
  then obtain w' where run: "EnforceL0Retention (NewCompactor doc_client) (world s) 1000 500 = (None, w')"
    by (metis prod.collapse)
  have inv: "fs_inv doc_FormatFilename doc_ParseFilename s" unfolding s_def by (intro fs_inv_mem) simp
  from l0_retention_safe [OF doc_client_contract, of "NewCompactor doc_client" "world s", unfolded world_simps,
      OF refl inv world_simps(3) _ it1 it run] run show ?thesis unfolding s_def Let_def by force
qed

subsection \<open>Properties: compaction\<close>

text \<open>
  C16. Verification of a level is exact: for TXIDs below the 64-bit maximum, \<open>VerifyLevelConsistency\<close> reports
  no error exactly when the listing succeeds and consecutive files are contiguous.
\<close>

theorem VerifyLevelConsistency_iff:
  assumes "\<forall>it. LTXFiles (cp_client c) (remote w) level 0 False = Inr it \<longrightarrow> (\<forall>i\<in>set (iter_items it). MaxTXID i < 2 ^ 64 - 1)"
  shows "VerifyLevelConsistency c w level = None \<longleftrightarrow>
         (\<exists>it. LTXFiles (cp_client c) (remote w) level 0 False = Inr it \<and> iter_err it = None \<and> contiguous (iter_items it))"
proof (cases "LTXFiles (cp_client c) (remote w) level 0 False")
  case (Inr it)
  then have "(verify_loop None (iter_items it) = None) = contiguous (iter_items it)" using assms verify_loop_iff by blast
  with Inr show ?thesis by (auto simp: VerifyLevelConsistency_def split: option.splits)
qed (simp add: VerifyLevelConsistency_def)

theorem VerifyLevelConsistency_iff_witness:
  "VerifyLevelConsistency (NewCompactor doc_client) (world (mem_fs [((1, 4, 5), ([1], 5)), ((1, 1, 3), ([1], 6))])) 1 = None \<and>
   VerifyLevelConsistency (NewCompactor doc_client) (world (mem_fs [((1, 5, 5), ([1], 5)), ((1, 1, 3), ([1], 6))])) 1 \<noteq> None"
proof -
  define s where "s = mem_fs [((1, 5, 5), ([1], 5)), ((1, 1, 3), ([1], 6))]"
  have run: "VerifyLevelConsistency (NewCompactor doc_client) (world (mem_fs [((1, 4, 5), ([1], 5)), ((1, 1, 3), ([1], 6))])) 1 = None"
    by code_simp
  have "case LTXFiles doc_client s 1 0 False of Inl _ \<Rightarrow> False
        | Inr it \<Rightarrow> (\<forall>i\<in>set (iter_items it). MaxTXID i < 10) \<and> map key (iter_items it) = [(1, 1, 3), (1, 5, 5)]"
    unfolding s_def by code_simp
  then obtain it where it: "LTXFiles doc_client s 1 0 False = Inr it"
      "\<forall>i\<in>set (iter_items it). MaxTXID i < 10" "map key (iter_items it) = [(1, 1, 3), (1, 5, 5)]"
    by (auto split: sum.splits)
  have "\<not> contiguous (iter_items it)" using it(3) by (auto simp: contiguous_def)
  with it VerifyLevelConsistency_iff [of "NewCompactor doc_client" "world s" 1]
  have "VerifyLevelConsistency (NewCompactor doc_client) (world s) 1 \<noteq> None" by force
  with run show ?thesis unfolding s_def by blast
qed


definition test_codec :: codec where
  "test_codec = \<lparr>age_Decrypt = (\<lambda>_ rd. Inr rd), age_Encrypt = (\<lambda>_. Inr (\<lambda>bs. (ageStreamIntro @ bs, None))),
                 ltx_NewCompactor = (\<lambda>_. None), ltx_Compact = (\<lambda>rdrs. (concat (map fst rdrs), None))\<rparr>"

definition test_compactor :: "(filesys, unit) Compactor" where
  "test_compactor = (NewCompactor doc_client)\<lparr>AgeRecipients := [''r''], RequireEncryption := True\<rparr>"

lemma test_compactor_simps [simp]: "cp_client test_compactor = doc_client" "CacheGetter test_compactor = None" "RequireEncryption test_compactor"
  by (simp_all add: test_compactor_def NewCompactor_def)


text \<open>
  C18. A compactor that requires encryption never writes plaintext: without a recipient it returns
  \<open>ErrEncryptionRequired\<close> and changes nothing, and whatever it stores is the complete output of the encryption
  to its recipients.
\<close>

theorem Compact_fail_closed:
  assumes "replica_client client files okay" and "cp_client c = client" and "okay (remote w)" and "RequireEncryption c"
  shows "(AgeRecipients c = [] \<longrightarrow> Compact cd c w dst = (Inl (Sentinel ErrEncryptionRequired), w)) \<and>
         (\<forall>info w'. Compact cd c w dst = (Inr info, w') \<longrightarrow>
            (\<exists>enc plain out. age_Encrypt cd (AgeRecipients c) = Inr enc \<and> enc plain = (out, None) \<and>
               files (remote w') = (files (remote w))(key info \<mapsto> (out, CreatedAt info))))"
proof -
  have "\<exists>enc plain out. age_Encrypt cd (AgeRecipients c) = Inr enc \<and> enc plain = (out, None) \<and>
               files (remote w') = (files (remote w))(key info \<mapsto> (out, CreatedAt info))"
    if run: "Compact cd c w dst = (Inr info, w')" for info w'
  proof -
    obtain prev e w1 where m: "cp_MaxLTXFileInfo c w dst = ((prev, e), w1)" by (metis prod.exhaust)
    obtain sit mn mx rdrs where r: "LTXFiles client (remote w) (dst - 1) (next_txid (MaxTXID prev)) False = Inr sit"
        "compact_sources cd c w1 (dst - 1) (iter_items sit) (0, 0, []) = Inr (mn, mx, rdrs)"
        "WriteLTXFile client (remote w) dst mn mx (compact_pipe cd (AgeRecipients c) rdrs) = (Inr info, remote w')"
      using Compact_written [OF run m] assms(2) by auto
    obtain bs where bs: "compact_pipe cd (AgeRecipients c) rdrs = (bs, None)"
        "files (remote w') = (files (remote w))(key info \<mapsto> (bs, CreatedAt info))"
      using replica_client.Compact_stored [OF assms(1-3) r] by auto
    have "AgeRecipients c \<noteq> []" using run assms(4) by (auto simp: Compact_def)
    with bs(1) have "\<exists>enc plain. age_Encrypt cd (AgeRecipients c) = Inr enc \<and> enc plain = (bs, None)"
      by (auto simp: compact_pipe_def Let_def split: sum.splits option.splits prod.splits)
    with bs(2) show ?thesis by blast
  qed
  then show ?thesis using assms(4) by (auto simp: Compact_def)
qed

theorem Compact_fail_closed_witness:
  "\<exists>w'. let s = mem_fs [((0, 3, 3), ([2], 10)), ((0, 4, 4), ([3], 20))] in
     (\<exists>info plain. Compact test_codec test_compactor (world s) 1 = (Inr info, w') \<and>
        file_objects doc_FormatFilename (remote w') (key info) = Some (ageStreamIntro @ plain, CreatedAt info)) \<and>
     Compact test_codec (test_compactor\<lparr>AgeRecipients := []\<rparr>) (world s) 1 = (Inl (Sentinel ErrEncryptionRequired), world s)"
proof -
  define s where "s = mem_fs [((0, 3, 3), ([2], 10)), ((0, 4, 4), ([3], 20))]"
  have "is_ok (fst (Compact test_codec test_compactor (world s) 1))" unfolding s_def by code_simp
  then obtain info w' where run: "Compact test_codec test_compactor (world s) 1 = (Inr info, w')"
    by (metis is_ok_iff prod.collapse)
  have inv: "fs_inv doc_FormatFilename doc_ParseFilename s" unfolding s_def by (intro fs_inv_mem) simp
  have enc: "age_Encrypt test_codec r = Inr enc \<Longrightarrow> enc = (\<lambda>bs. (ageStreamIntro @ bs, None))" for r enc
    by (simp add: test_codec_def)
  have a: "\<exists>plain. file_objects doc_FormatFilename (remote w') (key info) = Some (ageStreamIntro @ plain, CreatedAt info)"
    using Compact_fail_closed [OF doc_client_contract, of test_compactor "world s" test_codec 1] inv run
    by (fastforce dest: enc)
  have b: "Compact test_codec (test_compactor\<lparr>AgeRecipients := []\<rparr>) (world s) 1 = (Inl (Sentinel ErrEncryptionRequired), world s)"
    using Compact_fail_closed [OF doc_client_contract, of "test_compactor\<lparr>AgeRecipients := []\<rparr>" "world s" test_codec 1] inv by simp
  show ?thesis using run a b unfolding s_def Let_def by blast
qed

end
