(* ===== verification/RestorePlan.thy ===== *)
theory RestorePlan
  imports Compactor
begin

text \<open>
  Choosing the files of a restore (\<^verbatim>\<open>CalcRestorePlan\<close> and its cursors in \<^verbatim>\<open>src/replica.go\<close>). A cursor walks the
  files of one level and remembers the best file that is contiguous with what is already restored; the main
  loop repeatedly takes the best candidate of all levels. A zero transaction identifier or a zero time means
  that no target is given. \<^verbatim>\<open>FileInfoSlice.MaxTXID\<close> of the LTX library is the argument \<open>smax\<close>.
\<close>

subsection \<open>Cursors\<close>

record cursor =
  cur_itr :: "FileInfo list"
  cur_err :: "goerr option"
  current :: "FileInfo option"
  candidate :: "FileInfo option"
  cur_done :: bool

definition restoreCandidateBetter :: "FileInfo \<Rightarrow> FileInfo \<Rightarrow> bool" where
  "restoreCandidateBetter cand nxt =
     (if MaxTXID nxt \<noteq> MaxTXID cand then MaxTXID nxt > MaxTXID cand
      else if MinTXID nxt \<noteq> MinTXID cand then MinTXID nxt < MinTXID cand
      else if FLevel nxt \<noteq> FLevel cand then FLevel nxt > FLevel cand
      else CreatedAt nxt < CreatedAt cand)"

definition ensureCurrent :: "cursor \<Rightarrow> goerr + cursor" where
  "ensureCurrent c =
     (if cur_done c \<or> current c \<noteq> None then Inr c
      else case cur_itr c of
             [] \<Rightarrow> (case cur_err c of Some e \<Rightarrow> Inl e | None \<Rightarrow> Inr (c\<lparr>cur_done := True\<rparr>))
           | x # xs \<Rightarrow> Inr (c\<lparr>cur_itr := xs, current := Some x\<rparr>))"

text \<open>The number of files that a cursor has not evaluated yet.\<close>

definition pending :: "cursor \<Rightarrow> FileInfo list" where
  "pending c = (case current c of None \<Rightarrow> [] | Some x \<Rightarrow> [x]) @ cur_itr c"

lemma ensureCurrent_pending: "ensureCurrent c = Inr c' \<Longrightarrow> pending c' = pending c"
  by (auto simp: ensureCurrent_def pending_def split: if_splits list.splits option.splits)

lemma ensureCurrent_current:
  "ensureCurrent c = Inr c' \<Longrightarrow> \<not> cur_done c' \<Longrightarrow> \<exists>x. current c' = Some x \<and> pending c' = x # cur_itr c'"
  by (auto simp: ensureCurrent_def pending_def split: if_splits list.splits option.splits)

lemma pending_taken [simp]: "pending (c\<lparr>current := None\<rparr>) = cur_itr c" "pending (c\<lparr>current := None, candidate := g\<rparr>) = cur_itr c"
  by (simp_all add: pending_def)

lemma ensureCurrent_less: "ensureCurrent c = Inr c' \<Longrightarrow> current c' = Some x \<Longrightarrow> length (cur_itr c') < length (pending c)"
  using ensureCurrent_pending [of c c'] by (auto simp: pending_def dest: arg_cong [where f = length])

function refresh_loop :: "txid \<Rightarrow> txid \<Rightarrow> instant \<Rightarrow> cursor \<Rightarrow> goerr + cursor" where
  "refresh_loop currentMax txID timestamp c =
     (case ensureCurrent c of
        Inl e \<Rightarrow> Inl e
      | Inr c \<Rightarrow>
          if cur_done c then Inr c
          else case current c of
            None \<Rightarrow> Inr c
          | Some info \<Rightarrow>
              if MinTXID info > next_txid currentMax then Inr c
              else let c = c\<lparr>current := None\<rparr> in
                if MaxTXID info \<le> currentMax then refresh_loop currentMax txID timestamp c
                else if txID \<noteq> 0 \<and> MaxTXID info > txID then refresh_loop currentMax txID timestamp c
                else if timestamp \<noteq> 0 \<and> \<not> CreatedAt info < timestamp then refresh_loop currentMax txID timestamp c
                else if (case candidate c of None \<Rightarrow> True | Some g \<Rightarrow> restoreCandidateBetter g info)
                then refresh_loop currentMax txID timestamp (c\<lparr>candidate := Some info\<rparr>)
                else refresh_loop currentMax txID timestamp c)"
  by pat_completeness auto

termination refresh_loop
proof (relation "measure (\<lambda>(_, _, _, c). length (pending c))", goal_cases)
  case 1
  show ?case by simp
qed (auto dest: ensureCurrent_less)

declare refresh_loop.simps [simp del]

definition refresh :: "txid \<Rightarrow> txid \<Rightarrow> instant \<Rightarrow> cursor \<Rightarrow> goerr + cursor" where
  "refresh currentMax txID timestamp c =
     (if cur_done c then Inr c
      else let c = (case candidate c of
                      Some g \<Rightarrow> if MaxTXID g \<le> currentMax then c\<lparr>candidate := None\<rparr> else c
                    | None \<Rightarrow> c)
           in refresh_loop currentMax txID timestamp c)"

subsection \<open>The plan\<close>

text \<open>\<open>scan_cursors\<close> is the inner loop: it refreshes every cursor and returns the one with the best candidate
  (its position and the candidate).\<close>

fun scan_cursors ::
  "txid \<Rightarrow> txid \<Rightarrow> instant \<Rightarrow> nat \<Rightarrow> cursor list \<Rightarrow> (nat \<times> FileInfo) option \<Rightarrow> goerr + cursor list \<times> (nat \<times> FileInfo) option" where
  "scan_cursors cm txID ts i [] nxt = Inr ([], nxt)"
| "scan_cursors cm txID ts i (c # cs) nxt =
     (case refresh cm txID ts c of
        Inl e \<Rightarrow> Inl e
      | Inr c \<Rightarrow>
          let nxt = (case candidate c of
                       None \<Rightarrow> nxt
                     | Some f \<Rightarrow> (case nxt of
                                    None \<Rightarrow> Some (i, f)
                                  | Some (_, g) \<Rightarrow> if restoreCandidateBetter g f then Some (i, f) else nxt))
          in case scan_cursors cm txID ts (i + 1) cs nxt of
               Inl e \<Rightarrow> Inl e
             | Inr (cs, nxt) \<Rightarrow> Inr (c # cs, nxt))"

definition take_candidate :: "nat \<Rightarrow> cursor list \<Rightarrow> cursor list" where
  "take_candidate i cs = cs[i := (cs ! i)\<lparr>candidate := None\<rparr>]"

definition work :: "cursor \<Rightarrow> nat" where
  "work c = 2 * length (pending c) + (if candidate c = None then 0 else 1)"

definition eligible :: "txid \<Rightarrow> instant \<Rightarrow> FileInfo \<Rightarrow> bool" where
  "eligible txID timestamp info \<longleftrightarrow>
     \<not> (txID \<noteq> 0 \<and> MaxTXID info > txID) \<and> \<not> (timestamp \<noteq> 0 \<and> \<not> CreatedAt info < timestamp)"

text \<open>The branches of the loop body as one update of the cursor, and the induction on the pending files.\<close>

definition evaluate :: "txid \<Rightarrow> txid \<Rightarrow> instant \<Rightarrow> FileInfo \<Rightarrow> cursor \<Rightarrow> cursor" where
  "evaluate cm t ts x c = c\<lparr>current := None, candidate :=
     (if MaxTXID x \<le> cm \<or> \<not> eligible t ts x then candidate c
      else case candidate c of None \<Rightarrow> Some x | Some g \<Rightarrow> if restoreCandidateBetter g x then Some x else Some g)\<rparr>"

lemma evaluate_eq:
  "evaluate cm t ts x c =
     (let c = c\<lparr>current := None\<rparr> in
      if MaxTXID x \<le> cm then c else if t \<noteq> 0 \<and> MaxTXID x > t then c else if ts \<noteq> 0 \<and> \<not> CreatedAt x < ts then c
      else if (case candidate c of None \<Rightarrow> True | Some g \<Rightarrow> restoreCandidateBetter g x) then c\<lparr>candidate := Some x\<rparr> else c)"
  by (cases c; cases "candidate c") (auto simp: evaluate_def eligible_def Let_def)

lemma pending_evaluate [simp]: "pending (evaluate cm t ts x c) = cur_itr c"
  by (simp add: evaluate_def)

lemma refresh_loop_unfold:
  assumes "ensureCurrent c = Inr c1"
  shows "refresh_loop cm t ts c =
     (case current c1 of
        Some x \<Rightarrow> if cur_done c1 \<or> MinTXID x > next_txid cm then Inr c1 else refresh_loop cm t ts (evaluate cm t ts x c1)
      | None \<Rightarrow> Inr c1)"
  by (simp add: refresh_loop.simps [of cm t ts c] assms evaluate_eq Let_def split: option.split)

lemma refresh_loop_cases:
  assumes "refresh_loop cm t ts c = Inr c'"
  obtains (stop) "ensureCurrent c = Inr c'" "\<And>x. current c' = Some x \<Longrightarrow> \<not> cur_done c' \<Longrightarrow> next_txid cm < MinTXID x"
  | (step) c1 x where "ensureCurrent c = Inr c1" "\<not> cur_done c1" "current c1 = Some x" "pending c = x # cur_itr c1"
      "\<not> next_txid cm < MinTXID x" "refresh_loop cm t ts (evaluate cm t ts x c1) = Inr c'"
proof -
  obtain c1 where c1: "ensureCurrent c = Inr c1" using assms by (simp add: refresh_loop.simps [of cm t ts c] split: sum.splits)
  show thesis
  proof (cases "\<exists>x. current c1 = Some x \<and> \<not> cur_done c1 \<and> \<not> next_txid cm < MinTXID x")
    case True
    then obtain x where x: "current c1 = Some x" "\<not> cur_done c1" "\<not> next_txid cm < MinTXID x" by blast
    moreover have "pending c = x # cur_itr c1" using ensureCurrent_pending [OF c1] x(1) by (simp add: pending_def)
    ultimately show thesis using assms step [of c1 x] by (simp add: refresh_loop_unfold [OF c1] c1)
  next
    case False
    then have "c1 = c'" using assms by (auto simp: refresh_loop_unfold [OF c1] split: option.splits if_splits)
    with False c1 show thesis by (intro stop) auto
  qed
qed

lemma work_evaluate: "current c = Some x \<Longrightarrow> work (evaluate cm t ts x c) \<le> work c"
  by (auto simp: work_def pending_def evaluate_def)

lemma ensureCurrent_work: "ensureCurrent c = Inr c' \<Longrightarrow> work c' = work c"
  using ensureCurrent_pending [of c c']
  by (auto simp: work_def ensureCurrent_def split: if_splits list.splits option.splits)

lemma refresh_loop_work: "refresh_loop cm t ts c = Inr c' \<Longrightarrow> work c' \<le> work c"
proof (induction "length (pending c)" arbitrary: c rule: less_induct)
  case less
  from less.prems show ?case
  proof (cases rule: refresh_loop_cases)
    case (step c1 x)
    have "work c' \<le> work (evaluate cm t ts x c1)" using less.hyps [OF _ step(6)] step(4) by simp
    also have "\<dots> \<le> work c1" by (rule work_evaluate [OF step(3)])
    finally show ?thesis using ensureCurrent_work [OF step(1)] by simp
  qed (simp add: ensureCurrent_work)
qed

lemma refresh_work: "refresh cm t ts c = Inr c' \<Longrightarrow> work c' \<le> work c"
  by (auto simp: refresh_def Let_def work_def pending_def split: if_splits option.splits dest!: refresh_loop_work)

lemma scan_cursors_work: "scan_cursors cm t ts i cs nxt = Inr (cs', nxt') \<Longrightarrow> sum_list (map work cs') \<le> sum_list (map work cs)"
  by (induction cs arbitrary: i nxt cs')
    (auto simp: Let_def split: sum.splits prod.splits dest!: refresh_work intro!: add_mono)

lemma scan_cursors_length: "scan_cursors cm t ts i cs nxt = Inr (cs', nxt') \<Longrightarrow> length cs' = length cs"
  by (induction cs arbitrary: i nxt cs') (auto simp: Let_def split: sum.splits prod.splits)

lemma scan_cursors_nxt:
  "scan_cursors cm t ts i cs nxt = Inr (cs', nxt') \<Longrightarrow>
   nxt' = nxt \<or> (\<exists>j<length cs'. \<exists>f. nxt' = Some (i + j, f) \<and> candidate (cs' ! j) = Some f)"
proof (induction cs arbitrary: i nxt cs')
  case (Cons c cs)
  let ?best = "\<lambda>c1. case candidate c1 of None \<Rightarrow> nxt
                | Some f \<Rightarrow> (case nxt of None \<Rightarrow> Some (i, f) | Some (_, g) \<Rightarrow> if restoreCandidateBetter g f then Some (i, f) else nxt)"
  obtain c1 cs1 where r: "cs' = c1 # cs1" "scan_cursors cm t ts (i + 1) cs (?best c1) = Inr (cs1, nxt')"
    using Cons.prems by (auto simp: Let_def split: sum.splits prod.splits)
  from Cons.IH [OF r(2)] show ?case
  proof
    assume "nxt' = ?best c1"
    then show ?thesis using r(1) by (auto split: option.splits if_splits)
  next
    assume "\<exists>j<length cs1. \<exists>f. nxt' = Some (i + 1 + j, f) \<and> candidate (cs1 ! j) = Some f"
    then obtain j f where "j < length cs1" "nxt' = Some (i + Suc j, f)" "candidate (cs1 ! j) = Some f" by auto
    then show ?thesis using r(1) by (intro disjI2 exI [of _ "Suc j"]) auto
  qed
qed simp

lemma take_candidate_work:
  assumes "j < length cs" and "candidate (cs ! j) = Some f"
  shows "sum_list (map work (take_candidate j cs)) < sum_list (map work cs)"
proof -
  have "sum_list (map work cs) = sum_list (map work (take j cs @ cs ! j # drop (Suc j) cs))"
    using id_take_nth_drop [OF assms(1)] by simp
  moreover have "take_candidate j cs = take j cs @ (cs ! j)\<lparr>candidate := None\<rparr> # drop (Suc j) cs"
    using assms(1) by (simp add: take_candidate_def upd_conv_take_nth_drop)
  moreover have "work ((cs ! j)\<lparr>candidate := None\<rparr>) < work (cs ! j)" using assms(2) by (simp add: work_def pending_def)
  ultimately show ?thesis by simp
qed

function restore_loop ::
  "txid \<Rightarrow> txid \<Rightarrow> instant \<Rightarrow> FileInfo list \<Rightarrow> cursor list \<Rightarrow> goerr + FileInfo list \<times> txid \<times> cursor list" where
  "restore_loop currentMax txID timestamp infos cursors =
     (case scan_cursors currentMax txID timestamp 0 cursors None of
        Inl e \<Rightarrow> Inl e
      | Inr (cs, None) \<Rightarrow> Inr (infos, currentMax, cs)
      | Inr (cs, Some (j, f)) \<Rightarrow>
          let cs = take_candidate j cs in
          if MaxTXID f \<le> currentMax then restore_loop currentMax txID timestamp infos cs
          else if txID \<noteq> 0 \<and> MaxTXID f \<ge> txID then Inr (infos @ [f], MaxTXID f, cs)
          else restore_loop (MaxTXID f) txID timestamp (infos @ [f]) cs)"
  by pat_completeness auto

lemma scan_take_work:
  assumes "scan_cursors cm t ts 0 cs None = Inr (cs', Some (j, f))"
  shows "sum_list (map work (take_candidate j cs')) < sum_list (map work cs)"
  using scan_cursors_work [OF assms] scan_cursors_nxt [OF assms] take_candidate_work [of j cs' f] by force

termination restore_loop
  by (relation "measure (\<lambda>(_, _, _, _, cs). sum_list (map work cs))") (auto dest: scan_take_work)

declare restore_loop.simps [simp del]

fun open_cursors :: "'s ReplicaClient \<Rightarrow> 's \<Rightarrow> bool \<Rightarrow> int list \<Rightarrow> goerr + cursor list" where
  "open_cursors client s um [] = Inr []"
| "open_cursors client s um (level # levels) =
     (case LTXFiles client s level 0 um of
        Inl e \<Rightarrow> Inl e
      | Inr it \<Rightarrow>
          (case open_cursors client s um levels of
             Inl e \<Rightarrow> Inl e
           | Inr cs \<Rightarrow> Inr (\<lparr>cur_itr = iter_items it, cur_err = iter_err it, current = None, candidate = None, cur_done = False\<rparr> # cs)))"

definition restore_levels :: "int list" where
  "restore_levels = rev [0 .. SnapshotLevel - 1]"

text \<open>The loop over the snapshots keeps the last one that is not beyond the target.\<close>

definition pick_snapshot :: "txid \<Rightarrow> instant \<Rightarrow> FileInfo list \<Rightarrow> FileInfo option" where
  "pick_snapshot txID timestamp its = fold (\<lambda>info snap. if eligible txID timestamp info then Some info else snap) its None"

fun check_gap :: "txid \<Rightarrow> cursor list \<Rightarrow> goerr option" where
  "check_gap currentMax [] = None"
| "check_gap currentMax (c # cs) =
     (case ensureCurrent c of
        Inl e \<Rightarrow> Some e
      | Inr c \<Rightarrow> (case current c of
                    Some info \<Rightarrow> if MinTXID info > next_txid currentMax then Some (Errorf ''non-contiguous ltx files'')
                                 else check_gap currentMax cs
                  | None \<Rightarrow> check_gap currentMax cs))"

definition CalcRestorePlan ::
  "(FileInfo list \<Rightarrow> txid) \<Rightarrow> 's ReplicaClient \<Rightarrow> 's \<Rightarrow> txid \<Rightarrow> instant \<Rightarrow> goerr + FileInfo list" where
  "CalcRestorePlan smax client s txID timestamp =
     (if txID \<noteq> 0 \<and> timestamp \<noteq> 0 then Inl (Errorf ''cannot specify both TXID & timestamp to restore'')
      else case LTXFiles client s SnapshotLevel 0 (timestamp \<noteq> 0) of
        Inl e \<Rightarrow> Inl e
      | Inr it \<Rightarrow>
          (case iter_err it of
             Some e \<Rightarrow> Inl e
           | None \<Rightarrow>
               let infos = (case pick_snapshot txID timestamp (iter_items it) of None \<Rightarrow> [] | Some i \<Rightarrow> [i]);
                   currentMax = smax infos
               in if txID \<noteq> 0 \<and> currentMax \<ge> txID then Inr infos
                  else case open_cursors client s (timestamp \<noteq> 0) restore_levels of
                    Inl e \<Rightarrow> Inl e
                  | Inr cursors \<Rightarrow>
                      (case restore_loop currentMax txID timestamp infos cursors of
                         Inl e \<Rightarrow> Inl e
                       | Inr (infos, currentMax, cursors) \<Rightarrow>
                           (case (if length infos > 0 \<and> txID = 0 \<and> timestamp = 0 then check_gap currentMax cursors else None) of
                              Some e \<Rightarrow> Inl e
                            | None \<Rightarrow>
                                if length infos = 0 then Inl (Sentinel ErrTxNotAvailable)
                                else if txID \<noteq> 0 \<and> smax infos < txID then Inl (Sentinel ErrTxNotAvailable)
                                else Inr infos))))"

subsection \<open>Specification\<close>

text \<open>
  What a plan is, and how far one can get: \<open>plan_from F m fs\<close> says that the files \<open>fs\<close>, all of \<open>F\<close>, extend a
  database at TXID \<open>m\<close> one after the other without a gap; \<open>reachable F m n\<close> says that some such sequence ends at \<open>n\<close>.
\<close>

fun plan_from :: "FileInfo set \<Rightarrow> txid \<Rightarrow> FileInfo list \<Rightarrow> bool" where
  "plan_from F m [] \<longleftrightarrow> True"
| "plan_from F m (f # fs) \<longleftrightarrow> f \<in> F \<and> MinTXID f \<le> m + 1 \<and> m < MaxTXID f \<and> plan_from F (MaxTXID f) fs"

definition plan_end :: "txid \<Rightarrow> FileInfo list \<Rightarrow> txid" where
  "plan_end m fs = (if fs = [] then m else MaxTXID (last fs))"

inductive reachable :: "FileInfo set \<Rightarrow> txid \<Rightarrow> txid \<Rightarrow> bool" for F m where
  reach_start: "reachable F m m"
| reach_step: "reachable F m n \<Longrightarrow> f \<in> F \<Longrightarrow> MinTXID f \<le> n + 1 \<Longrightarrow> n < MaxTXID f \<Longrightarrow> reachable F m (MaxTXID f)"

lemma plan_end_Cons [simp]: "plan_end m (f # fs) = plan_end (MaxTXID f) fs"
  by (simp add: plan_end_def)

lemma plan_end_Nil [simp]: "plan_end m [] = m"
  by (simp add: plan_end_def)

lemma plan_append: "plan_from F m (a @ b) \<longleftrightarrow> plan_from F m a \<and> plan_from F (plan_end m a) b"
  by (induction a arbitrary: m) auto

lemma plan_end_append [simp]: "plan_end m (a @ b) = plan_end (plan_end m a) b"
  by (simp add: plan_end_def)

lemma plan_increasing: "plan_from F m fs \<Longrightarrow> m \<le> plan_end m fs \<and> (fs \<noteq> [] \<longrightarrow> m < plan_end m fs)"
proof (induction fs arbitrary: m)
  case (Cons f fs)
  then show ?case by (cases fs) fastforce+
qed simp

lemma plan_mono: "plan_from F m fs \<Longrightarrow> F \<subseteq> G \<Longrightarrow> plan_from G m fs"
  by (induction fs arbitrary: m) auto

lemma plan_from_sub: "plan_from F m fs \<Longrightarrow> set fs \<subseteq> F"
  by (induction fs arbitrary: m) auto

lemma plan_end_bound: "plan_from F m fs \<Longrightarrow> m < N \<Longrightarrow> \<forall>f\<in>F. MaxTXID f < N \<Longrightarrow> plan_end m fs < N"
  by (induction fs arbitrary: m) auto

lemma plan_strict: "plan_from F m fs \<Longrightarrow> sorted_wrt (<) (m # map MaxTXID fs)"
proof (induction fs arbitrary: m)
  case (Cons f fs)
  then show ?case by force
qed simp

lemma reachable_trans: "reachable F m n \<Longrightarrow> reachable F n k \<Longrightarrow> reachable F m k"
  by (rotate_tac, induction rule: reachable.induct) (auto intro: reachable.intros)

lemma plan_reachable: "plan_from F m fs \<Longrightarrow> reachable F m (plan_end m fs)"
proof (induction fs arbitrary: m)
  case (Cons f fs)
  then have "reachable F m (MaxTXID f)" by (auto intro: reachable.intros)
  with Cons show ?case by (auto intro: reachable_trans)
qed (auto intro: reach_start)

lemma reachable_plan: "reachable F m n \<Longrightarrow> \<exists>fs. plan_from F m fs \<and> plan_end m fs = n"
proof (induction rule: reachable.induct)
  case reach_start
  show ?case by (rule exI [of _ "[]"]) simp
next
  case (reach_step n f)
  then obtain fs where "plan_from F m fs" "plan_end m fs = n" by auto
  with reach_step show ?case by (intro exI [of _ "fs @ [f]"]) (auto simp: plan_append)
qed

text \<open>A point that no file of \<open>F\<close> extends bounds what is reachable from below it.\<close>

lemma reachable_bound:
  assumes "reachable F m n" and "m \<le> b" and "\<forall>f\<in>F. MinTXID f \<le> b + 1 \<longrightarrow> MaxTXID f \<le> b"
  shows "n \<le> b"
  using assms(1) by (induction rule: reachable.induct) (use assms(2,3) in auto)

subsection \<open>What the cursors keep\<close>

definition cursor_inv :: "FileInfo set \<Rightarrow> (FileInfo \<Rightarrow> bool) \<Rightarrow> txid \<Rightarrow> cursor \<Rightarrow> bool" where
  "cursor_inv L E cm c \<longleftrightarrow>
     sorted (map MinTXID (pending c)) \<and> set (pending c) \<subseteq> L \<and> (cur_done c \<longrightarrow> pending c = [] \<and> cur_err c = None) \<and>
     (\<forall>f\<in>L. f \<notin> set (pending c) \<longrightarrow> E f \<longrightarrow> MaxTXID f \<le> cm \<or> (\<exists>g. candidate c = Some g \<and> MaxTXID f \<le> MaxTXID g)) \<and>
     (\<forall>g. candidate c = Some g \<longrightarrow> g \<in> L \<and> E g \<and> MinTXID g \<le> cm + 1)"

definition passed :: "txid \<Rightarrow> cursor \<Rightarrow> bool" where
  "passed cm c \<longleftrightarrow> (\<forall>f\<in>set (pending c). cm + 1 < MinTXID f)"

lemma better_max:
  "restoreCandidateBetter g f \<Longrightarrow> MaxTXID g \<le> MaxTXID f" "\<not> restoreCandidateBetter g f \<Longrightarrow> MaxTXID f \<le> MaxTXID g"
  by (auto simp: restoreCandidateBetter_def split: if_splits)

lemma cursor_inv_mono: "cursor_inv L E cm c \<Longrightarrow> cm \<le> cm' \<Longrightarrow> cursor_inv L E cm' c"
  unfolding cursor_inv_def by (meson add_le_mono1 order_trans)

lemma cursor_inv_taken:
  "cursor_inv L E cm c \<Longrightarrow> candidate c = Some g \<Longrightarrow> MaxTXID g \<le> cm \<Longrightarrow> cursor_inv L E cm (c\<lparr>candidate := None\<rparr>)"
  by (fastforce simp: cursor_inv_def pending_def)

lemma ensureCurrent_inv:
  assumes "cursor_inv L E cm c" and "ensureCurrent c = Inr c'"
  shows "cursor_inv L E cm c'"
  using assms ensureCurrent_pending [OF assms(2)]
  by (auto simp: cursor_inv_def ensureCurrent_def pending_def split: if_splits list.splits option.splits)

lemma cursor_inv_evaluate:
  assumes "cursor_inv L (eligible t ts) cm c" and "current c = Some x" and "\<not> cur_done c" and "MinTXID x \<le> cm + 1"
  shows "cursor_inv L (eligible t ts) cm (evaluate cm t ts x c)"
proof -
  have p: "pending c = x # cur_itr c" using assms(2) by (simp add: pending_def)
  show ?thesis
  proof (cases "candidate c")
    case None
    then show ?thesis using assms p by (auto simp: cursor_inv_def evaluate_def)
  next
    case (Some g)
    show ?thesis
      using assms p Some better_max [of g x] unfolding cursor_inv_def
      by (auto simp: evaluate_def intro: order_trans)
  qed
qed

lemma refresh_loop_inv:
  assumes "refresh_loop cm t ts c = Inr c'" and "cursor_inv L (eligible t ts) cm c" and "cm < 2 ^ 64 - 1"
  shows "cursor_inv L (eligible t ts) cm c' \<and> passed cm c'"
  using assms(1,2)
proof (induction "length (pending c)" arbitrary: c rule: less_induct)
  case less
  note nx = next_txid_eq [OF assms(3)]
  from less.prems(1) show ?case
  proof (cases rule: refresh_loop_cases)
    case stop
    note inv = ensureCurrent_inv [OF less.prems(2) stop(1)]
    have "passed cm c'"
    proof (cases "cur_done c'")
      case False
      then obtain x where "current c' = Some x" "pending c' = x # cur_itr c'" using ensureCurrent_current [OF stop(1)] by blast
      with inv stop(2) False nx show ?thesis by (fastforce simp: passed_def cursor_inv_def)
    qed (use inv in \<open>auto simp: passed_def cursor_inv_def\<close>)
    with inv show ?thesis ..
  next
    case (step c1 x)
    have "cursor_inv L (eligible t ts) cm (evaluate cm t ts x c1)"
      using cursor_inv_evaluate [OF ensureCurrent_inv [OF less.prems(2) step(1)] step(3,2)] step(5) nx by simp
    with less.hyps [OF _ step(6)] step(4) show ?thesis by simp
  qed
qed

lemma refresh_inv:
  assumes "refresh cm t ts c = Inr c'" and "cursor_inv L (eligible t ts) cm c" and "cm < 2 ^ 64 - 1"
  shows "cursor_inv L (eligible t ts) cm c' \<and> passed cm c'"
proof (cases "cur_done c")
  case True
  with assms show ?thesis by (auto simp: refresh_def passed_def cursor_inv_def)
next
  case False
  show ?thesis
  proof (cases "\<exists>g. candidate c = Some g \<and> MaxTXID g \<le> cm")
    case True
    then have "refresh_loop cm t ts (c\<lparr>candidate := None\<rparr>) = Inr c'" using False assms(1) by (auto simp: refresh_def)
    moreover have "cursor_inv L (eligible t ts) cm (c\<lparr>candidate := None\<rparr>)" using True assms(2) cursor_inv_taken by blast
    ultimately show ?thesis using refresh_loop_inv assms(3) by blast
  next
    case F2: False
    then have "refresh_loop cm t ts c = Inr c'" using False assms(1) by (auto simp: refresh_def split: option.splits)
    then show ?thesis using refresh_loop_inv assms(2,3) by blast
  qed
qed

abbreviation cursors_inv :: "FileInfo set list \<Rightarrow> (FileInfo \<Rightarrow> bool) \<Rightarrow> txid \<Rightarrow> cursor list \<Rightarrow> bool" where
  "cursors_inv Ls E cm cs \<equiv> list_all2 (\<lambda>L c. cursor_inv L E cm c) Ls cs"

lemma scan_cursors_inv:
  assumes "scan_cursors cm t ts i cs nxt = Inr (cs', nxt')" and "cursors_inv Ls (eligible t ts) cm cs" and "cm < 2 ^ 64 - 1"
  shows "cursors_inv Ls (eligible t ts) cm cs' \<and> (\<forall>c\<in>set cs'. passed cm c) \<and>
         (nxt' = None \<longrightarrow> nxt = None \<and> (\<forall>c\<in>set cs'. candidate c = None))"
  using assms(1,2)
proof (induction cs arbitrary: i nxt cs' Ls)
  case (Cons c cs)
  then obtain L Ls' where Ls: "Ls = L # Ls'" "cursor_inv L (eligible t ts) cm c" "cursors_inv Ls' (eligible t ts) cm cs"
    by (auto simp: list_all2_Cons2)
  obtain c1 cs1 nxt1 where r: "refresh cm t ts c = Inr c1" "cs' = c1 # cs1" "scan_cursors cm t ts (i + 1) cs nxt1 = Inr (cs1, nxt')"
      "nxt1 = None \<Longrightarrow> nxt = None \<and> candidate c1 = None"
    using Cons.prems(1) by (fastforce simp: Let_def split: sum.splits prod.splits option.splits if_splits)
  from refresh_inv [OF r(1) Ls(2) assms(3)] Cons.IH [OF r(3) Ls(3)] r(2,4) Ls(1) show ?case by auto
qed auto

text \<open>One round of the main loop: the chosen candidate is eligible, extends what is restored unless it is stale,
  and taking it keeps the cursors' invariant.\<close>

lemma round_inv:
  assumes sc: "scan_cursors cm t ts 0 cs None = Inr (cs', Some (j, f))"
    and inv: "cursors_inv Ls (eligible t ts) cm cs" and "cm < 2 ^ 64 - 1"
  shows "f \<in> \<Union>(set Ls) \<and> eligible t ts f \<and> MinTXID f \<le> cm + 1 \<and>
         (\<forall>cm'. cm \<le> cm' \<longrightarrow> MaxTXID f \<le> cm' \<longrightarrow> cursors_inv Ls (eligible t ts) cm' (take_candidate j cs'))"
proof -
  have j: "j < length cs'" "candidate (cs' ! j) = Some f" using scan_cursors_nxt [OF sc] by auto
  have inv': "cursors_inv Ls (eligible t ts) cm cs'" using scan_cursors_inv [OF sc inv assms(3)] by simp
  then have len: "length Ls = length cs'" by (rule list_all2_lengthD)
  have at: "cursor_inv (Ls ! j) (eligible t ts) cm (cs' ! j)" using inv' j(1) len by (simp add: list_all2_conv_all_nth)
  have "cursors_inv Ls (eligible t ts) cm' (take_candidate j cs')" if "cm \<le> cm'" "MaxTXID f \<le> cm'" for cm'
  proof (rule list_all2_all_nthI)
    fix i assume i: "i < length Ls"
    have "cursor_inv (Ls ! i) (eligible t ts) cm' (cs' ! i)"
      using inv' i cursor_inv_mono [OF _ that(1)] by (simp add: list_all2_conv_all_nth)
    then show "cursor_inv (Ls ! i) (eligible t ts) cm' (take_candidate j cs' ! i)"
      using i len j cursor_inv_taken [OF _ j(2) that(2)] by (cases "i = j") (auto simp: take_candidate_def)
  qed (simp add: len take_candidate_def)
  moreover have "Ls ! j \<in> set Ls" using j(1) len by simp
  ultimately show ?thesis using at j(2) by (auto simp: cursor_inv_def)
qed

lemma restore_loop_plan:
  assumes "restore_loop cm t ts infos cs = Inr (infos', cm', cs')" and "cursors_inv Ls (eligible t ts) cm cs" and "cm < 2 ^ 64 - 1"
    and "\<forall>f\<in>\<Union>(set Ls). MaxTXID f < 2 ^ 64 - 1"
  defines "F \<equiv> {f \<in> \<Union>(set Ls). eligible t ts f}"
  shows "\<exists>ext. infos' = infos @ ext \<and> plan_from F cm ext \<and> cm' = plan_end cm ext \<and>
           (t \<noteq> 0 \<and> t \<le> cm' \<or>
            cursors_inv Ls (eligible t ts) cm' cs' \<and> (\<forall>c\<in>set cs'. passed cm' c \<and> candidate c = None))"
  using assms(1-3)
proof (induction "sum_list (map work cs)" arbitrary: cm infos cs rule: less_induct)
  case less
  obtain cs1 nxt where sc: "scan_cursors cm t ts 0 cs None = Inr (cs1, nxt)"
    using less.prems(1) by (auto simp: restore_loop.simps [of cm] split: sum.splits)
  note inv = scan_cursors_inv [OF sc less.prems(2,3)]
  show ?case
  proof (cases nxt)
    case None
    then have "infos' = infos" "cm' = cm" "cs' = cs1" using less.prems(1) sc by (auto simp: restore_loop.simps [of cm])
    with inv None show ?thesis by (intro exI [of _ "[]"]) auto
  next
    case (Some jf)
    then obtain j f where sc: "scan_cursors cm t ts 0 cs None = Inr (cs1, Some (j, f))" using sc by (cases jf) auto
    let ?cs = "take_candidate j cs1"
    note rd = round_inv [OF sc less.prems(2,3)] and dec = scan_take_work [OF sc]
    have run: "(if MaxTXID f \<le> cm then restore_loop cm t ts infos ?cs
                else if t \<noteq> 0 \<and> MaxTXID f \<ge> t then Inr (infos @ [f], MaxTXID f, ?cs)
                else restore_loop (MaxTXID f) t ts (infos @ [f]) ?cs) = Inr (infos', cm', cs')"
      using less.prems(1) sc by (simp add: restore_loop.simps [of cm] Let_def)
    show ?thesis
    proof (cases "MaxTXID f \<le> cm")
      case True
      then show ?thesis using less.hyps [OF dec] run rd less.prems(3) by auto
    next
      case False
      then have f: "plan_from F cm [f]" using rd by (auto simp: F_def)
      have big: "MaxTXID f < 2 ^ 64 - 1" using rd assms(4) by blast
      show ?thesis
      proof (cases "t \<noteq> 0 \<and> MaxTXID f \<ge> t")
        case True
        then show ?thesis using run False f by (intro exI [of _ "[f]"]) auto
      next
        case F2: False
        have "restore_loop (MaxTXID f) t ts (infos @ [f]) ?cs = Inr (infos', cm', cs')" using run False F2 by (simp split: if_splits)
        moreover have "cursors_inv Ls (eligible t ts) (MaxTXID f) ?cs" using rd False by simp
        ultimately obtain ext where "infos' = (infos @ [f]) @ ext" "plan_from F (MaxTXID f) ext" "cm' = plan_end (MaxTXID f) ext"
            "t \<noteq> 0 \<and> t \<le> cm' \<or> cursors_inv Ls (eligible t ts) cm' cs' \<and> (\<forall>c\<in>set cs'. passed cm' c \<and> candidate c = None)"
          using less.hyps [OF dec _ _ big] by blast
        with f show ?thesis by (intro exI [of _ "f # ext"]) auto
      qed
    qed
  qed
qed

text \<open>When the loop stops by itself, no eligible file extends the plan any further.\<close>

lemma cursors_exhausted:
  assumes "cursors_inv Ls E cm cs" and "\<forall>c\<in>set cs. passed cm c \<and> candidate c = None" and "f \<in> \<Union>(set Ls)" and "E f"
    and "MinTXID f \<le> cm + 1"
  shows "MaxTXID f \<le> cm"
proof -
  obtain j where "j < length Ls" "f \<in> Ls ! j" using assms(3) by (auto simp: in_set_conv_nth)
  moreover from this have "cursor_inv (Ls ! j) E cm (cs ! j)" "cs ! j \<in> set cs"
    using assms(1) by (auto simp: list_all2_conv_all_nth)
  moreover from this have "f \<notin> set (pending (cs ! j))" "candidate (cs ! j) = None"
    using assms(2,5) by (fastforce simp: passed_def)+
  ultimately show ?thesis using assms(4) by (auto simp: cursor_inv_def)
qed

lemma open_cursors_inv:
  assumes "open_cursors client s um levels = Inr cs"
    and "\<forall>l it. l \<in> set levels \<and> LTXFiles client s l 0 um = Inr it \<longrightarrow> sorted (map MinTXID (iter_items it))"
  shows "\<exists>its. list_all2 (\<lambda>l it. LTXFiles client s l 0 um = Inr it) levels its \<and>
               cursors_inv (map (\<lambda>it. set (iter_items it)) its) E cm cs \<and> list_all2 (\<lambda>it c. cur_err c = iter_err it) its cs"
  using assms
proof (induction levels arbitrary: cs)
  case (Cons l levels)
  then obtain it cs1 where r: "LTXFiles client s l 0 um = Inr it" "open_cursors client s um levels = Inr cs1"
      "cs = \<lparr>cur_itr = iter_items it, cur_err = iter_err it, current = None, candidate = None, cur_done = False\<rparr> # cs1"
    by (auto split: sum.splits)
  have "\<forall>l it. l \<in> set levels \<and> LTXFiles client s l 0 um = Inr it \<longrightarrow> sorted (map MinTXID (iter_items it))"
    using Cons.prems(2) by auto
  from Cons.IH [OF r(2) this] obtain its where its:
      "list_all2 (\<lambda>l it. LTXFiles client s l 0 um = Inr it) levels its"
      "cursors_inv (map (\<lambda>it. set (iter_items it)) its) E cm cs1" "list_all2 (\<lambda>it c. cur_err c = iter_err it) its cs1"
    by blast
  have "cursor_inv (set (iter_items it)) E cm
      \<lparr>cur_itr = iter_items it, cur_err = iter_err it, current = None, candidate = None, cur_done = False\<rparr>"
    using Cons.prems(2) r(1) by (auto simp: cursor_inv_def pending_def)
  with its r(1,3) show ?case by (intro exI [of _ "it # its"]) simp
qed auto

lemma pick_snapshot_Some: "pick_snapshot t ts its = Some i \<Longrightarrow> i \<in> set its \<and> eligible t ts i"
proof -
  have "fold (\<lambda>info snap. if eligible t ts info then Some info else snap) its s0 = Some i \<Longrightarrow>
      s0 = Some i \<or> i \<in> set its \<and> eligible t ts i" for s0
    by (induction its arbitrary: s0) (auto split: if_splits)
  then show "pick_snapshot t ts its = Some i \<Longrightarrow> i \<in> set its \<and> eligible t ts i" by (fastforce simp: pick_snapshot_def)
qed

subsection \<open>The plan as a whole\<close>

definition listed :: "'s ReplicaClient \<Rightarrow> 's \<Rightarrow> bool \<Rightarrow> int \<Rightarrow> FileInfo set" where
  "listed client s um level = (case LTXFiles client s level 0 um of Inl _ \<Rightarrow> {} | Inr it \<Rightarrow> set (iter_items it))"

definition restore_files :: "'s ReplicaClient \<Rightarrow> 's \<Rightarrow> txid \<Rightarrow> instant \<Rightarrow> FileInfo set" where
  "restore_files client s t ts = {f. \<exists>l\<in>set restore_levels. f \<in> listed client s (ts \<noteq> 0) l \<and> eligible t ts f}"

definition snapshot_of :: "'s ReplicaClient \<Rightarrow> 's \<Rightarrow> txid \<Rightarrow> instant \<Rightarrow> FileInfo list" where
  "snapshot_of client s t ts =
     (case LTXFiles client s SnapshotLevel 0 (ts \<noteq> 0) of
        Inl _ \<Rightarrow> []
      | Inr it \<Rightarrow> (case pick_snapshot t ts (iter_items it) of None \<Rightarrow> [] | Some i \<Rightarrow> [i]))"

text \<open>What the plan relies on: sorted listings (the contract of a client), TXIDs below the 64-bit maximum, and the
  LTX library's \<^verbatim>\<open>MaxTXID\<close> of a slice that is ordered by it.\<close>

definition listings_sorted :: "'s ReplicaClient \<Rightarrow> 's \<Rightarrow> bool \<Rightarrow> bool" where
  "listings_sorted client s um \<longleftrightarrow>
     (\<forall>l it. LTXFiles client s l 0 um = Inr it \<longrightarrow>
        sorted (map MinTXID (iter_items it)) \<and> (\<forall>i\<in>set (iter_items it). MaxTXID i < 2 ^ 64 - 1))"

definition slice_max :: "(FileInfo list \<Rightarrow> txid) \<Rightarrow> bool" where
  "slice_max smax \<longleftrightarrow> (\<forall>xs. sorted_wrt (<) (map MaxTXID xs) \<longrightarrow> smax xs = plan_end 0 xs)"

lemma snapshot_of_props:
  "snapshot_of client s t ts = [] \<or>
   (\<exists>i. snapshot_of client s t ts = [i] \<and> i \<in> listed client s (ts \<noteq> 0) SnapshotLevel \<and> eligible t ts i)"
  by (auto simp: snapshot_of_def listed_def split: sum.splits option.splits dest!: pick_snapshot_Some)

lemma smax_snapshot: "slice_max smax \<Longrightarrow> smax (snapshot_of client s t ts) = plan_end 0 (snapshot_of client s t ts)"
  using snapshot_of_props [of client s t ts] by (auto simp: slice_max_def)

lemma listed_Union:
  assumes "list_all2 (\<lambda>l it. LTXFiles client s l 0 um = Inr it) levels its"
  shows "\<Union>(set (map (\<lambda>it. set (iter_items it)) its)) = (\<Union>l\<in>set levels. listed client s um l)"
  using assms by (induction rule: list_all2_induct) (auto simp: listed_def)

text \<open>How far the loop of \<open>CalcRestorePlan\<close> has got when it ends.\<close>

lemma restore_loop_law:
  assumes srt: "listings_sorted client s (ts \<noteq> 0)" and cur: "open_cursors client s (ts \<noteq> 0) restore_levels = Inr cs"
    and run: "restore_loop cm t ts infos cs = Inr (infos', cm', cs')" and cm: "cm < 2 ^ 64 - 1"
  defines "F \<equiv> restore_files client s t ts"
  shows "\<exists>ext. infos' = infos @ ext \<and> plan_from F cm ext \<and> cm' = plan_end cm ext \<and>
           (t \<noteq> 0 \<and> t \<le> cm' \<or> (\<forall>m. reachable F cm m \<longrightarrow> m \<le> cm'))"
proof -
  have sl: "\<forall>l it. l \<in> set restore_levels \<and> LTXFiles client s l 0 (ts \<noteq> 0) = Inr it \<longrightarrow> sorted (map MinTXID (iter_items it))"
    using srt by (auto simp: listings_sorted_def)
  obtain its where its: "list_all2 (\<lambda>l it. LTXFiles client s l 0 (ts \<noteq> 0) = Inr it) restore_levels its"
      "cursors_inv (map (\<lambda>it. set (iter_items it)) its) (eligible t ts) cm cs"
    using open_cursors_inv [OF cur sl] by blast
  let ?Ls = "map (\<lambda>it. set (iter_items it)) its"
  have U: "\<Union>(set ?Ls) = (\<Union>l\<in>set restore_levels. listed client s (ts \<noteq> 0) l)" by (rule listed_Union [OF its(1)])
  have big: "\<forall>f\<in>\<Union>(set ?Ls). MaxTXID f < 2 ^ 64 - 1"
    using srt unfolding U by (auto simp: listings_sorted_def listed_def split: sum.splits)
  have F: "{f \<in> \<Union>(set ?Ls). eligible t ts f} = F" unfolding U F_def restore_files_def by auto
  obtain ext where ext: "infos' = infos @ ext" "plan_from F cm ext" "cm' = plan_end cm ext"
      "t \<noteq> 0 \<and> t \<le> cm' \<or> cursors_inv ?Ls (eligible t ts) cm' cs' \<and> (\<forall>c\<in>set cs'. passed cm' c \<and> candidate c = None)"
    using restore_loop_plan [OF run its(2) cm big] unfolding F by blast
  have "m \<le> cm'" if "reachable F cm m" "\<not> (t \<noteq> 0 \<and> t \<le> cm')" for m
  proof (rule reachable_bound [OF that(1)])
    show "cm \<le> cm'" using plan_increasing [OF ext(2)] ext(3) by simp
    show "\<forall>f\<in>F. MinTXID f \<le> cm' + 1 \<longrightarrow> MaxTXID f \<le> cm'"
      using cursors_exhausted [where Ls = ?Ls and E = "eligible t ts" and cm = cm' and cs = cs'] ext(4) that(2) unfolding F [symmetric] by blast
  qed
  with ext(1-3) show ?thesis by blast
qed

lemma eligible_plan_le: "plan_from (restore_files client s t ts) m fs \<Longrightarrow> t \<noteq> 0 \<Longrightarrow> fs \<noteq> [] \<Longrightarrow> plan_end m fs \<le> t"
proof (induction fs arbitrary: m)
  case (Cons f fs)
  then show ?case by (cases fs) (auto simp: restore_files_def eligible_def)
qed simp

lemma CalcRestorePlan_law:
  assumes srt: "listings_sorted client s (ts \<noteq> 0)" and sm: "slice_max smax"
    and run: "CalcRestorePlan smax client s t ts = Inr infos"
  defines "F \<equiv> restore_files client s t ts" and "snap \<equiv> snapshot_of client s t ts"
  shows "infos \<noteq> [] \<and> (\<exists>ext. infos = snap @ ext \<and> plan_from F (plan_end 0 snap) ext \<and>
           (t \<noteq> 0 \<longrightarrow> plan_end 0 infos = t) \<and>
           (t = 0 \<longrightarrow> (\<forall>m. reachable F (plan_end 0 snap) m \<longrightarrow> m \<le> plan_end 0 infos)))"
proof -
  let ?cm = "plan_end 0 snap"
  note sp = snapshot_of_props [of client s t ts, folded snap_def]
  have le: "t \<noteq> 0 \<Longrightarrow> ?cm \<le> t" using sp by (auto simp: eligible_def)
  obtain it where it: "LTXFiles client s SnapshotLevel 0 (ts \<noteq> 0) = Inr it" "iter_err it = None"
    using run by (auto simp: CalcRestorePlan_def split: sum.splits option.splits if_splits)
  have cm: "?cm < 2 ^ 64 - 1" using sp srt it by (auto simp: listed_def listings_sorted_def)
  have eq: "(case pick_snapshot t ts (iter_items it) of None \<Rightarrow> [] | Some i \<Rightarrow> [i]) = snap" by (simp add: snap_def snapshot_of_def it)
  note sms = smax_snapshot [OF sm, of client s t ts, folded snap_def]
  note run' = run [unfolded CalcRestorePlan_def it sum.case option.case Let_def eq sms]
  show ?thesis
  proof (cases "t \<noteq> 0 \<and> t \<le> ?cm")
    case True
    then have "infos = snap" "?cm = t" using run' it le by (auto split: if_splits)
    then show ?thesis using True sp by (intro conjI exI [of _ "[]"]) auto
  next
    case False
    obtain cs infos' cm' cs' where r: "open_cursors client s (ts \<noteq> 0) restore_levels = Inr cs"
        "restore_loop ?cm t ts snap cs = Inr (infos', cm', cs')" "infos' = infos" "infos \<noteq> []" "t \<noteq> 0 \<longrightarrow> t \<le> smax infos"
      using run' it False by (auto split: if_splits sum.splits option.splits)
    obtain ext where ext: "infos = snap @ ext" "plan_from F ?cm ext" "cm' = plan_end ?cm ext"
        "t \<noteq> 0 \<and> t \<le> cm' \<or> (\<forall>m. reachable F ?cm m \<longrightarrow> m \<le> cm')"
      using restore_loop_law [OF srt r(1,2) cm] r(3) unfolding F_def by blast
    have "sorted_wrt (<) (map MaxTXID infos)" using plan_strict [OF ext(2)] ext(1) sp by (auto simp: sorted_wrt_append)
    then have sx: "smax infos = plan_end 0 infos" using sm by (simp add: slice_max_def)
    have pe: "plan_end 0 infos = cm'" using ext(1,3) by simp
    have "plan_end 0 infos = t" if "t \<noteq> 0"
    proof -
      have "ext \<noteq> []" using False that r(5) sx pe ext(3) by auto
      then have "cm' \<le> t" using eligible_plan_le [OF ext(2) [unfolded F_def] that] ext(3) by simp
      with r(5) sx pe that show ?thesis by simp
    qed
    with ext pe r(4) show ?thesis by auto
  qed
qed

subsection \<open>Errors of the iterators\<close>

lemma ensureCurrent_err: "ensureCurrent c = Inr c' \<Longrightarrow> cur_err c' = cur_err c"
  by (auto simp: ensureCurrent_def split: if_splits list.splits option.splits)

lemma ensureCurrent_total: "cur_err c = None \<Longrightarrow> \<exists>c'. ensureCurrent c = Inr c'"
  by (auto simp: ensureCurrent_def split: list.splits)

lemma refresh_loop_err: "refresh_loop cm t ts c = Inr c' \<Longrightarrow> cur_err c' = cur_err c"
proof (induction "length (pending c)" arbitrary: c rule: less_induct)
  case less
  from less.prems show ?case
  proof (cases rule: refresh_loop_cases)
    case (step c1 x)
    then show ?thesis using less.hyps [OF _ step(6)] ensureCurrent_err [OF step(1)] by (simp add: evaluate_def)
  qed (simp add: ensureCurrent_err)
qed

lemma refresh_loop_total: "cur_err c = None \<Longrightarrow> \<exists>c'. refresh_loop cm t ts c = Inr c'"
proof (induction "length (pending c)" arbitrary: c rule: less_induct)
  case less
  then obtain c1 where c1: "ensureCurrent c = Inr c1" using ensureCurrent_total by blast
  have "\<exists>c'. refresh_loop cm t ts (evaluate cm t ts x c1) = Inr c'" if "current c1 = Some x" for x
    using less.hyps [of "evaluate cm t ts x c1"] less.prems ensureCurrent_err [OF c1] ensureCurrent_less [OF c1 that]
    by (simp add: evaluate_def)
  then show ?case by (auto simp: refresh_loop_unfold [OF c1] split: option.split)
qed

lemma refresh_err: "refresh cm t ts c = Inr c' \<Longrightarrow> cur_err c' = cur_err c"
  by (auto simp: refresh_def Let_def split: if_splits option.splits dest!: refresh_loop_err)

lemma refresh_total: "cur_err c = None \<Longrightarrow> \<exists>c'. refresh cm t ts c = Inr c'"
  by (auto simp: refresh_def Let_def split: option.splits intro: refresh_loop_total)

lemma scan_cursors_err: "scan_cursors cm t ts i cs nxt = Inr (cs', nxt') \<Longrightarrow> map cur_err cs' = map cur_err cs"
  by (induction cs arbitrary: i nxt cs') (auto simp: Let_def split: sum.splits prod.splits dest!: refresh_err)

lemma scan_cursors_total:
  "\<forall>c\<in>set cs. cur_err c = None \<Longrightarrow> \<exists>cs' nxt'. scan_cursors cm t ts i cs nxt = Inr (cs', nxt')"
proof (induction cs arbitrary: i nxt)
  case (Cons c cs)
  obtain c' where "refresh cm t ts c = Inr c'" using refresh_total [of c cm t ts] Cons.prems by auto
  with Cons.IH Cons.prems show ?case by (simp add: Let_def) (metis (no_types, lifting) old.prod.case old.sum.simps(6))
qed simp

lemma take_candidate_err: "j < length cs \<Longrightarrow> map cur_err (take_candidate j cs) = map cur_err cs"
  by (simp add: take_candidate_def map_update) (metis list_update_id map_update nth_map)

lemma round_err:
  "scan_cursors cm t ts 0 cs None = Inr (cs', Some (j, f)) \<Longrightarrow> map cur_err (take_candidate j cs') = map cur_err cs"
  using scan_cursors_err [of cm t ts 0 cs None cs' "Some (j, f)"] scan_cursors_nxt [of cm t ts 0 cs None cs' "Some (j, f)"]
    take_candidate_err [of j cs'] by auto

lemma restore_loop_err: "restore_loop cm t ts infos cs = Inr (infos', cm', cs') \<Longrightarrow> map cur_err cs' = map cur_err cs"
proof (induction "sum_list (map work cs)" arbitrary: cm infos cs rule: less_induct)
  case less
  obtain cs1 nxt where sc: "scan_cursors cm t ts 0 cs None = Inr (cs1, nxt)"
    using less.prems(1) by (auto simp: restore_loop.simps [of cm t ts infos cs] split: sum.splits)
  show ?case
  proof (cases nxt)
    case None
    then show ?thesis using less.prems sc scan_cursors_err [OF sc] by (auto simp: restore_loop.simps [of cm t ts infos cs])
  next
    case (Some jf)
    then obtain j f where sc: "scan_cursors cm t ts 0 cs None = Inr (cs1, Some (j, f))" using sc by (cases jf) auto
    then show ?thesis
      using less.prems less.hyps [OF scan_take_work [OF sc]] round_err [OF sc]
      by (auto simp: restore_loop.simps [of cm t ts infos cs] Let_def split: if_splits)
  qed
qed

lemma restore_loop_total:
  "\<forall>c\<in>set cs. cur_err c = None \<Longrightarrow> \<exists>infos' cm' cs'. restore_loop cm t ts infos cs = Inr (infos', cm', cs')"
proof (induction "sum_list (map work cs)" arbitrary: cm infos cs rule: less_induct)
  case less
  obtain cs1 nxt where sc: "scan_cursors cm t ts 0 cs None = Inr (cs1, nxt)" using scan_cursors_total [OF less.prems] by blast
  show ?case
  proof (cases nxt)
    case (Some jf)
    then obtain j f where sc: "scan_cursors cm t ts 0 cs None = Inr (cs1, Some (j, f))" using sc by (cases jf) auto
    have "\<forall>c\<in>set (take_candidate j cs1). cur_err c = None"
      using round_err [OF sc] less.prems by (metis imageE imageI list.set_map)
    then show ?thesis
      using less.hyps [OF scan_take_work [OF sc]] sc by (simp add: restore_loop.simps [of cm t ts infos cs] Let_def)
  qed (simp add: sc restore_loop.simps [of cm t ts infos cs])
qed

text \<open>The final check of a restore to the latest state: no cursor still has a file beyond a gap.\<close>

lemma check_gap_None:
  assumes "check_gap cm cs = None" and "cm < 2 ^ 64 - 1" and "\<forall>c\<in>set cs. passed cm c" and "cursors_inv Ls E cm cs"
  shows "\<forall>c\<in>set cs. pending c = [] \<and> cur_err c = None"
  using assms
proof (induction cs arbitrary: Ls)
  case (Cons c cs)
  obtain c1 where c1: "ensureCurrent c = Inr c1" using Cons.prems(1) by (auto split: sum.splits)
  obtain L Ls' where L: "cursor_inv L E cm c" "cursors_inv Ls' E cm cs" using Cons.prems(4) by (auto simp: list_all2_Cons2)
  have nx: "next_txid cm = cm + 1" using Cons.prems(2) by (simp add: next_txid_eq)
  have "current c1 = None"
  proof (rule ccontr)
    assume "current c1 \<noteq> None"
    then obtain x where x: "current c1 = Some x" by blast
    then have "x \<in> set (pending c)" using c1 by (auto simp: ensureCurrent_def pending_def split: if_splits list.splits option.splits)
    then have "MinTXID x > next_txid cm" using Cons.prems(3) by (auto simp: passed_def nx)
    then show False using Cons.prems(1) c1 x by simp
  qed
  then have "pending c = [] \<and> cur_err c = None"
    using c1 L(1) by (auto simp: ensureCurrent_def cursor_inv_def pending_def split: if_splits list.splits option.splits)
  moreover have "check_gap cm cs = None" using Cons.prems(1) c1 \<open>current c1 = None\<close> by simp
  ultimately show ?case using Cons.IH [OF _ Cons.prems(2) _ L(2)] Cons.prems(3) by auto
qed simp

lemma cursors_drained:
  assumes "cursors_inv Ls E cm cs" and "\<forall>c\<in>set cs. pending c = [] \<and> candidate c = None" and "f \<in> \<Union>(set Ls)" and "E f"
  shows "MaxTXID f \<le> cm"
proof -
  obtain j where "j < length Ls" "f \<in> Ls ! j" using assms(3) by (auto simp: in_set_conv_nth)
  moreover from this have "cursor_inv (Ls ! j) E cm (cs ! j)" "cs ! j \<in> set cs"
    using assms(1) by (auto simp: list_all2_conv_all_nth)
  ultimately show ?thesis using assms(2,4) by (auto simp: cursor_inv_def)
qed

lemma open_cursors_total:
  "\<forall>l\<in>set levels. \<exists>it. LTXFiles client s l 0 um = Inr it \<Longrightarrow> \<exists>cs. open_cursors client s um levels = Inr cs"
  by (induction levels) auto

definition listings_ok :: "'s ReplicaClient \<Rightarrow> 's \<Rightarrow> bool \<Rightarrow> bool" where
  "listings_ok client s um \<longleftrightarrow> (\<forall>l. \<exists>it. LTXFiles client s l 0 um = Inr it \<and> iter_err it = None)"

lemma open_cursors_no_err:
  assumes "listings_ok client s um" and "open_cursors client s um levels = Inr cs"
  shows "\<forall>c\<in>set cs. cur_err c = None"
  using assms(2)
proof (induction levels arbitrary: cs)
  case (Cons l levels)
  obtain it where "LTXFiles client s l 0 um = Inr it" "iter_err it = None" using assms(1) by (auto simp: listings_ok_def)
  with Cons show ?case by (auto split: sum.splits)
qed auto

lemma listed_level: "l \<in> set restore_levels \<longleftrightarrow> 0 \<le> l \<and> l < SnapshotLevel"
  by (auto simp: restore_levels_def SnapshotLevel_def)

subsection \<open>Restores from a client that keeps its contract\<close>

context replica_client
begin

lemma contract_sorted:
  assumes "inv s" and "\<forall>k v. files s k = Some v \<longrightarrow> snd (snd k) < 2 ^ 64 - 1"
  shows "listings_sorted client s um"
proof -
  have "sorted (map MinTXID (iter_items it)) \<and> (\<forall>i\<in>set (iter_items it). MaxTXID i < 2 ^ 64 - 1)"
    if "LTXFiles client s l 0 um = Inr it" for l it
    using list_sorted [OF assms(1) that] list_items_any [OF assms(1) that] assms(2) by fastforce
  then show ?thesis by (simp add: listings_sorted_def)
qed

lemma listed_stored: "inv s \<Longrightarrow> i \<in> listed client s um l \<Longrightarrow> FLevel i = l \<and> (\<exists>bs. files s (key i) = Some (bs, CreatedAt i))"
  using list_items_any [of s l 0 um] by (auto simp: listed_def split: sum.splits)

lemma stored_listed:
  assumes "inv s" "LTXFiles client s l 0 um = Inr it" "iter_err it = None" "files s (l, a, b) = Some v"
  shows "info_of (l, a, b) v \<in> listed client s um l"
  using list_complete [OF assms(1-4)] assms(2) by (simp add: listed_def)

lemma plan_stored:
  assumes "inv s" and "plan_from (restore_files client s t ts) m ext" and "i \<in> set (snapshot_of client s t ts @ ext)"
  shows "eligible t ts i \<and> (\<exists>bs. files s (key i) = Some (bs, CreatedAt i))"
proof -
  have "i \<in> restore_files client s t ts \<or> i \<in> set (snapshot_of client s t ts)"
    using plan_from_sub [OF assms(2)] assms(3) by auto
  then obtain l where "i \<in> listed client s (ts \<noteq> 0) l" "eligible t ts i"
    using snapshot_of_props [of client s t ts] by (auto simp: restore_files_def)
  with listed_stored [OF assms(1)] show ?thesis by blast
qed

end

lemma latest_drained:
  assumes srt: "listings_sorted client s False" and sm: "slice_max smax" and run: "CalcRestorePlan smax client s 0 0 = Inr infos"
    and l: "l \<in> set restore_levels"
  shows "\<exists>it. LTXFiles client s l 0 False = Inr it \<and> iter_err it = None \<and> (\<forall>f\<in>set (iter_items it). MaxTXID f \<le> plan_end 0 infos)"
proof -
  define snap where "snap = snapshot_of client s 0 0"
  let ?cm = "plan_end 0 snap"
  obtain it where it: "LTXFiles client s SnapshotLevel 0 False = Inr it" "iter_err it = None"
    using run by (auto simp: CalcRestorePlan_def split: sum.splits option.splits if_splits)
  have cm: "?cm < 2 ^ 64 - 1" using snapshot_of_props [of client s 0 0] srt it by (auto simp: snap_def listed_def listings_sorted_def)
  have eq: "(case pick_snapshot 0 0 (iter_items it) of None \<Rightarrow> [] | Some i \<Rightarrow> [i]) = snap" by (simp add: snap_def snapshot_of_def it)
  have "smax snap = ?cm" unfolding snap_def by (rule smax_snapshot [OF sm])
  with run it eq obtain cs cm' cs' where r: "open_cursors client s False restore_levels = Inr cs"
      "restore_loop ?cm 0 0 snap cs = Inr (infos, cm', cs')" "infos \<noteq> []" "check_gap cm' cs' = None"
    by (auto simp: CalcRestorePlan_def Let_def split: if_splits sum.splits option.splits)
  have "\<forall>l it. l \<in> set restore_levels \<and> LTXFiles client s l 0 False = Inr it \<longrightarrow> sorted (map MinTXID (iter_items it))"
    using srt by (auto simp: listings_sorted_def)
  from open_cursors_inv [OF r(1) this] obtain its where
      its: "list_all2 (\<lambda>l it. LTXFiles client s l 0 False = Inr it) restore_levels its"
      "cursors_inv (map (\<lambda>it. set (iter_items it)) its) (eligible 0 0) ?cm cs" "list_all2 (\<lambda>it c. cur_err c = iter_err it) its cs"
    by blast
  let ?Ls = "map (\<lambda>it. set (iter_items it)) its"
  have big: "\<forall>f\<in>\<Union>(set ?Ls). MaxTXID f < 2 ^ 64 - 1"
    using srt unfolding listed_Union [OF its(1)] by (auto simp: listings_sorted_def listed_def split: sum.splits)
  obtain ext where ext: "infos = snap @ ext" "plan_from {f \<in> \<Union>(set ?Ls). eligible 0 0 f} ?cm ext" "cm' = plan_end ?cm ext"
      "cursors_inv ?Ls (eligible 0 0) cm' cs'" "\<forall>c\<in>set cs'. passed cm' c \<and> candidate c = None"
    using restore_loop_plan [OF r(2) its(2) cm big] by auto
  have big': "cm' < 2 ^ 64 - 1" unfolding ext(3) by (rule plan_end_bound [OF ext(2) cm]) (use big in blast)
  have dr: "\<forall>c\<in>set cs'. pending c = [] \<and> cur_err c = None"
    using check_gap_None [OF r(4) big' _ ext(4)] ext(5) by auto
  have "map cur_err cs = map iter_err its" using its(3) by (induction rule: list_all2_induct) auto
  then have err: "\<forall>it\<in>set its. iter_err it = None"
    using restore_loop_err [OF r(2)] dr by (metis (mono_tags, lifting) imageE imageI list.set_map)
  obtain j where "j < length restore_levels" "restore_levels ! j = l" using l by (auto simp: in_set_conv_nth)
  then have j: "LTXFiles client s l 0 False = Inr (its ! j)" "its ! j \<in> set its"
    using its(1) by (auto simp: list_all2_conv_all_nth)
  moreover have "MaxTXID f \<le> plan_end 0 infos" if "f \<in> set (iter_items (its ! j))" for f
    using cursors_drained [OF ext(4)] dr ext(1,3,5) j(2) that by (auto simp: eligible_def)
  ultimately show ?thesis using err by auto
qed

lemma CalcRestorePlan_total:
  assumes srt: "listings_sorted client s False" and ok: "listings_ok client s False" and sm: "slice_max smax" and t: "t \<noteq> 0"
  defines "start \<equiv> plan_end 0 (snapshot_of client s t 0)"
  shows "CalcRestorePlan smax client s t 0 = Inl (Sentinel ErrTxNotAvailable) \<and> \<not> reachable (restore_files client s t 0) start t \<or>
         (\<exists>infos. CalcRestorePlan smax client s t 0 = Inr infos)"
proof -
  define snap where "snap = snapshot_of client s t 0"
  note sp = snapshot_of_props [of client s t 0, folded snap_def, simplified]
  obtain it where it: "LTXFiles client s SnapshotLevel 0 False = Inr it" "iter_err it = None"
    using ok by (auto simp: listings_ok_def)
  have eq: "(case pick_snapshot t 0 (iter_items it) of None \<Rightarrow> [] | Some i \<Rightarrow> [i]) = snap" by (simp add: snap_def snapshot_of_def it)
  have sms: "smax snap = start" unfolding snap_def start_def by (rule smax_snapshot [OF sm])
  have cm: "start < 2 ^ 64 - 1" using sp srt it by (auto simp: start_def snap_def [symmetric] listed_def listings_sorted_def)
  obtain cs where cs: "open_cursors client s False restore_levels = Inr cs"
    using open_cursors_total [of restore_levels client s False] ok by (auto simp: listings_ok_def)
  obtain infos cm' cs' where run: "restore_loop start t 0 snap cs = Inr (infos, cm', cs')"
    using restore_loop_total [OF open_cursors_no_err [OF ok cs]] by blast
  obtain ext where ext: "infos = snap @ ext" "plan_from (restore_files client s t 0) start ext" "cm' = plan_end start ext"
      "t \<le> cm' \<or> (\<forall>m. reachable (restore_files client s t 0) start m \<longrightarrow> m \<le> cm')"
    using restore_loop_law [where ts = 0, simplified, OF srt cs run] cm by auto
  have "sorted_wrt (<) (map MaxTXID infos)" using plan_strict [OF ext(2)] ext sp by (auto simp: sorted_wrt_append start_def snap_def [symmetric])
  then have sx: "smax infos = cm'" using sm ext(1,3) by (simp add: slice_max_def start_def snap_def)
  have "infos = [] \<Longrightarrow> cm' = 0" using ext(1,3) by (simp add: start_def snap_def)
  then have un: "\<not> reachable (restore_files client s t 0) start t" if "infos = [] \<or> cm' < t" using that ext(4) t by force
  have "CalcRestorePlan smax client s t 0 = (if t \<le> start then Inr snap
      else if infos = [] \<or> cm' < t then Inl (Sentinel ErrTxNotAvailable) else Inr infos)"
    using t by (simp add: CalcRestorePlan_def Let_def it eq sms cs run sx)
  with un show ?thesis by (simp split: if_splits)
qed

subsection \<open>Properties\<close>

text \<open>The documented \<^verbatim>\<open>MaxTXID\<close> of a slice of files and the objects of the concrete stores, for the witnesses.\<close>

definition slice_MaxTXID :: "FileInfo list \<Rightarrow> txid" where
  "slice_MaxTXID infos = fold (\<lambda>i m. max (MaxTXID i) m) infos 0"

lemma slice_max_doc: "slice_max slice_MaxTXID"
  unfolding slice_max_def
proof (intro allI impI)
  fix xs :: "FileInfo list" assume "sorted_wrt (<) (map MaxTXID xs)"
  then show "slice_MaxTXID xs = plan_end 0 xs"
  proof (induction xs rule: rev_induct)
    case (snoc x xs)
    then have "plan_end 0 xs \<le> MaxTXID x" by (cases xs rule: rev_cases) (auto simp: sorted_wrt_append)
    with snoc show ?case by (simp add: slice_MaxTXID_def sorted_wrt_append)
  qed (simp add: slice_MaxTXID_def)
qed

lemma mem_fs_objects:
  "\<forall>((l, a, b), f)\<in>set objs. txid_ok a \<and> txid_ok b \<Longrightarrow> file_objects doc_FormatFilename (mem_fs objs) = map_of objs"
proof (induction objs)
  case Nil
  show ?case by (simp add: file_objects_def empty_fs_def dir_of_def fun_eq_iff)
next
  case (Cons x objs)
  obtain l a b f where "x = ((l, a, b), f)" by (metis prod.exhaust)
  with Cons show ?case by (simp add: doc_ltx.objects_put)
qed

lemma mem_fs_fault: "fault (mem_fs objs) = (\<lambda>_. None)"
  by (induction objs rule: mem_fs.induct) (simp_all add: empty_fs_def put_file_def set_dir_def)

lemma listings_ok_mem: "listings_ok doc_client (mem_fs objs) um"
  by (auto simp: listings_ok_def doc_client_def file_client_def file_LTXFiles_def mem_fs_fault)







end
