(* ===== verification/Replica.thy ===== *)
theory Replica
  imports RestorePlan
begin

text \<open>
  A replica (\<^verbatim>\<open>src/replica.go\<close>): encryption on the way to and from the client, the upload of local LTX files, the
  position of the replica, the backoff of the monitor, the time bounds and the validation of a level. The age library
  is the record \<open>codec\<close> of the compactor. The local database is seen through \<open>db_view\<close>: its position and its LTX
  files. A position is its TXID; the checksum of \<^verbatim>\<open>ltx.Pos\<close> is not used here.
\<close>

record Replica =
  rp_SyncInterval :: duration
  rp_MonitorEnabled :: bool
  rp_AutoRecoverEnabled :: bool
  rp_AgeIdentities :: "string list"
  rp_AgeRecipients :: "string list"
  rp_RequireEncryption :: bool

definition DefaultSyncInterval :: duration where
  "DefaultSyncInterval = 1 * second"

definition NewReplica :: Replica where
  "NewReplica = \<lparr>rp_SyncInterval = DefaultSyncInterval, rp_MonitorEnabled = True, rp_AutoRecoverEnabled = False,
     rp_AgeIdentities = [], rp_AgeRecipients = [], rp_RequireEncryption = False\<rparr>"

definition EncryptionEnabled :: "Replica \<Rightarrow> bool" where
  "EncryptionEnabled r \<longleftrightarrow> length (rp_AgeRecipients r) > 0"

definition DecryptionEnabled :: "Replica \<Rightarrow> bool" where
  "DecryptionEnabled r \<longleftrightarrow> length (rp_AgeIdentities r) > 0"

text \<open>\<open>Start\<close>: whether the monitor goroutine is started, or the error.\<close>

definition rp_Start :: "Replica \<Rightarrow> goerr + bool" where
  "rp_Start r =
     (if \<not> rp_MonitorEnabled r then Inr False
      else if rp_RequireEncryption r \<and> \<not> EncryptionEnabled r then Inl (Sentinel ErrEncryptionRequired)
      else Inr True)"

subsection \<open>Reading and writing LTX files\<close>

definition rp_OpenLTXFile ::
  "codec \<Rightarrow> Replica \<Rightarrow> 's ReplicaClient \<Rightarrow> 's \<Rightarrow> int \<Rightarrow> txid \<Rightarrow> txid \<Rightarrow> int \<Rightarrow> int \<Rightarrow> goerr + stream" where
  "rp_OpenLTXFile cd r client s level minTXID maxTXID offset sz =
     (case OpenLTXFile client s level minTXID maxTXID offset sz of
        Inl err \<Rightarrow> Inl err
      | Inr rc \<Rightarrow>
          if \<not> DecryptionEnabled r then Inr rc
          else case DecryptIfSealed rc (age_Decrypt cd (rp_AgeIdentities r)) of
            Inl err \<Rightarrow> Inl (Wrapf ''age decrypt'' err)
          | Inr dr \<Rightarrow> Inr dr)"

text \<open>
  What the goroutine of \<open>WriteLTXFile\<close> writes into the pipe, and the error it leaves in \<^verbatim>\<open>encErr\<close>. The plaintext is copied
  into the encrypting writer, which is closed at the end.
\<close>

definition encrypt_pipe :: "codec \<Rightarrow> string list \<Rightarrow> stream \<Rightarrow> stream \<times> goerr option" where
  "encrypt_pipe cd recipients rd =
     (case age_Encrypt cd recipients of
        Inl err \<Rightarrow> (([], Some (Wrapf ''age encrypt'' err)), None)
      | Inr enc \<Rightarrow>
          let (out, close_err) = enc (fst rd)
          in case snd rd of
               Some err \<Rightarrow> ((out, Some err), Some err)
             | None \<Rightarrow> ((out, close_err), close_err))"

definition rp_WriteLTXFile ::
  "codec \<Rightarrow> Replica \<Rightarrow> 's ReplicaClient \<Rightarrow> 's \<Rightarrow> int \<Rightarrow> txid \<Rightarrow> txid \<Rightarrow> stream \<Rightarrow> (goerr + FileInfo) \<times> 's" where
  "rp_WriteLTXFile cd r client s level minTXID maxTXID rd =
     (if \<not> EncryptionEnabled r
      then if rp_RequireEncryption r then (Inl (Sentinel ErrEncryptionRequired), s)
           else WriteLTXFile client s level minTXID maxTXID rd
      else let (pr, encErr) = encrypt_pipe cd (rp_AgeRecipients r) rd
           in case WriteLTXFile client s level minTXID maxTXID pr of
                (Inl err, s) \<Rightarrow> (Inl (if encErr \<noteq> None then Wrapf ''write ltx file'' err else err), s)
              | (Inr info, s) \<Rightarrow> (Inr info, s))"

subsection \<open>Synchronisation\<close>

record db_view =
  db_Pos :: "goerr + txid"
  db_open :: "int \<Rightarrow> txid \<Rightarrow> txid \<Rightarrow> goerr + stream"

text \<open>The state a replica works on: the store of its client, the position, and the time of the last successful sync.\<close>

record 's rstate =
  rs_store :: 's
  rs_pos :: txid
  rs_synced :: instant

definition uploadLTXFile ::
  "codec \<Rightarrow> Replica \<Rightarrow> 's ReplicaClient \<Rightarrow> db_view \<Rightarrow> 's rstate \<Rightarrow> int \<Rightarrow> txid \<Rightarrow> txid \<Rightarrow> goerr option \<times> 's rstate" where
  "uploadLTXFile cd r client db st level minTXID maxTXID =
     (case db_open db level minTXID maxTXID of
        Inl err \<Rightarrow> (Some (NewLTXError ''open'' level minTXID maxTXID err), st)
      | Inr f \<Rightarrow>
          (case rp_WriteLTXFile cd r client (rs_store st) level minTXID maxTXID f of
             (Inl err, s) \<Rightarrow> (Some (Wrapf ''write ltx file'' err), st\<lparr>rs_store := s\<rparr>)
           | (Inr info, s) \<Rightarrow> (None, st\<lparr>rs_store := s\<rparr>)))"

definition rp_MaxLTXFileInfo :: "'s ReplicaClient \<Rightarrow> 's \<Rightarrow> int \<Rightarrow> FileInfo \<times> goerr option" where
  "rp_MaxLTXFileInfo client s level =
     (case LTXFiles client s level 0 False of
        Inl err \<Rightarrow> (zero_info, Some err)
      | Inr it \<Rightarrow> (max_info (iter_items it), iter_err it))"

definition calcPos :: "'s ReplicaClient \<Rightarrow> 's \<Rightarrow> goerr + txid" where
  "calcPos client s =
     (case rp_MaxLTXFileInfo client s 0 of
        (_, Some err) \<Rightarrow> Inl (Wrapf ''max ltx file'' err)
      | (info, None) \<Rightarrow> Inr (MaxTXID info))"

text \<open>The loop of \<open>Sync\<close> ends when the position has reached that of the database; with the wrap-around of the 64-bit TXID
  it need not.\<close>

partial_function (option) sync_loop ::
  "codec \<Rightarrow> Replica \<Rightarrow> 's ReplicaClient \<Rightarrow> db_view \<Rightarrow> txid \<Rightarrow> 's rstate \<Rightarrow> (goerr option \<times> 's rstate) option" where
  "sync_loop cd r client db dpos st =
     (let txID = next_txid (rs_pos st) in
      if txID \<le> dpos
      then (case uploadLTXFile cd r client db st 0 txID txID of
              (Some err, st) \<Rightarrow> Some (Some err, st)
            | (None, st) \<Rightarrow> sync_loop cd r client db dpos (st\<lparr>rs_pos := txID\<rparr>))
      else Some (None, st))"

declare sync_loop.simps [code]

definition sync_run ::
  "codec \<Rightarrow> Replica \<Rightarrow> 's ReplicaClient \<Rightarrow> db_view \<Rightarrow> instant \<Rightarrow> 's rstate \<Rightarrow> (goerr option \<times> 's rstate) option" where
  "sync_run cd r client db now st =
     (case (if rs_pos st = 0
            then (case calcPos client (rs_store st) of Inl err \<Rightarrow> Inl (Wrapf ''calc pos'' err) | Inr pos \<Rightarrow> Inr (st\<lparr>rs_pos := pos\<rparr>))
            else Inr st) of
        Inl err \<Rightarrow> Some (Some err, st)
      | Inr st \<Rightarrow>
          (case db_Pos db of
             Inl err \<Rightarrow> Some (Some (Wrapf ''cannot determine current position'' err), st)
           | Inr dpos \<Rightarrow>
               if dpos = 0 then Some (Some (Errorf ''no position, waiting for data''), st)
               else case sync_loop cd r client db dpos st of
                 None \<Rightarrow> None
               | Some (Some err, st) \<Rightarrow> Some (Some err, st)
               | Some (None, st) \<Rightarrow> Some (None, st\<lparr>rs_synced := now\<rparr>)))"

text \<open>\<open>Sync\<close> clears the position when an error occurs.\<close>

definition Sync ::
  "codec \<Rightarrow> Replica \<Rightarrow> 's ReplicaClient \<Rightarrow> db_view \<Rightarrow> instant \<Rightarrow> 's rstate \<Rightarrow> (goerr option \<times> 's rstate) option" where
  "Sync cd r client db now st =
     map_option (\<lambda>(err, st). (err, if err \<noteq> None then st\<lparr>rs_pos := 0\<rparr> else st)) (sync_run cd r client db now st)"

subsection \<open>The monitor\<close>

text \<open>One iteration of \<open>monitor\<close> after \<open>Sync\<close>: \<open>reset\<close> is the result of \<^verbatim>\<open>ResetLocalState\<close>, called for an auto-recoverable
  \<open>LTXError\<close> when recovery is enabled. The second component of the result says whether it was called.\<close>

definition DefaultSyncBackoffMax :: duration where
  "DefaultSyncBackoffMax = 5 * minute"

definition SyncErrorLogInterval :: duration where
  "SyncErrorLogInterval = 30 * second"

record mon_state =
  mon_backoff :: duration
  mon_lastLog :: instant
  mon_errs :: nat

definition as_LTXError :: "goerr \<Rightarrow> goerr option" where
  "as_LTXError e = List.find (\<lambda>x. case x of LTXError _ _ _ _ _ _ \<Rightarrow> True | _ \<Rightarrow> False) (unwrap e)"

definition next_backoff :: "Replica \<Rightarrow> duration \<Rightarrow> duration" where
  "next_backoff r b =
     (if b = 0 then rp_SyncInterval r else if b * 2 > DefaultSyncBackoffMax then DefaultSyncBackoffMax else b * 2)"

definition monitor_step :: "Replica \<Rightarrow> instant \<Rightarrow> goerr option \<Rightarrow> goerr option \<Rightarrow> mon_state \<Rightarrow> mon_state \<times> bool" where
  "monitor_step r now err reset m =
     (case err of
        None \<Rightarrow> (m\<lparr>mon_backoff := 0, mon_errs := 0\<rparr>, False)
      | Some err \<Rightarrow>
          if errors_Is err ctx_Canceled \<or> errors_Is err ctx_DeadlineExceeded then (m, False)
          else
            let m = m\<lparr>mon_errs := mon_errs m + 1, mon_backoff := next_backoff r (mon_backoff m)\<rparr>;
                m = (if now - mon_lastLog m \<ge> SyncErrorLogInterval then m\<lparr>mon_lastLog := now\<rparr> else m)
            in case as_LTXError err of
                 None \<Rightarrow> (m, False)
               | Some ltxErr \<Rightarrow>
                   if rp_AutoRecoverEnabled r \<and> IsAutoRecoverable ltxErr
                   then (if reset = None then m\<lparr>mon_backoff := 0, mon_errs := 0\<rparr> else m, True)
                   else (m, False))"

subsection \<open>Time bounds\<close>

definition rp_CreatedAt :: "'s ReplicaClient \<Rightarrow> 's \<Rightarrow> instant \<times> goerr option" where
  "rp_CreatedAt client s =
     (case LTXFiles client s 0 0 False of
        Inl err \<Rightarrow> (0, Some err)
      | Inr it \<Rightarrow> (case iter_items it of [] \<Rightarrow> 0 | info # _ \<Rightarrow> CreatedAt info, iter_err it))"

text \<open>The update of the two bounds by one creation time, and the loops over the files of the levels.\<close>

definition extend_bounds :: "instant \<Rightarrow> instant \<times> instant \<Rightarrow> instant \<times> instant" where
  "extend_bounds t = (\<lambda>(createdAt, updatedAt).
     (if createdAt = 0 \<or> t < createdAt then t else createdAt, if updatedAt = 0 \<or> t > updatedAt then t else updatedAt))"

fun bounds_levels :: "'s ReplicaClient \<Rightarrow> 's \<Rightarrow> int list \<Rightarrow> instant \<times> instant \<Rightarrow> (instant \<times> instant) \<times> goerr option" where
  "bounds_levels client s [] b = (b, None)"
| "bounds_levels client s (level # levels) b =
     (case LTXFiles client s level 0 False of
        Inl err \<Rightarrow> (b, Some err)
      | Inr it \<Rightarrow>
          let b = fold (\<lambda>info. extend_bounds (CreatedAt info)) (iter_items it) b
          in case iter_err it of Some err \<Rightarrow> (b, Some err) | None \<Rightarrow> bounds_levels client s levels b)"

definition TimeBounds :: "'s ReplicaClient \<Rightarrow> 's \<Rightarrow> (instant \<times> instant) \<times> goerr option" where
  "TimeBounds client s = bounds_levels client s (rev [0..SnapshotLevel]) (0, 0)"

subsection \<open>Validation of a level\<close>

datatype issue = Unsorted | Gap | Overlap

text \<open>A validation error is its type, the previous and the current file; the level and the message repeat them.\<close>

fun validate_loop :: "FileInfo option \<Rightarrow> FileInfo list \<Rightarrow> (issue \<times> FileInfo \<times> FileInfo) list" where
  "validate_loop prev [] = []"
| "validate_loop None (info # rest) = validate_loop (Some info) rest"
| "validate_loop (Some prev) (info # rest) =
     (if MinTXID info < MinTXID prev then (Unsorted, prev, info) # validate_loop (Some info) rest
      else let expected = next_txid (MaxTXID prev) in
        (if MinTXID info \<noteq> expected
         then [(if MinTXID info > expected then Gap else Overlap, prev, info)] else []) @ validate_loop (Some info) rest)"

definition ValidateLevel :: "'s ReplicaClient \<Rightarrow> 's \<Rightarrow> int \<Rightarrow> goerr + (issue \<times> FileInfo \<times> FileInfo) list" where
  "ValidateLevel client s level =
     (case LTXFiles client s level 0 False of
        Inl err \<Rightarrow> Inl (Wrapf ''fetch ltx files'' err)
      | Inr it \<Rightarrow>
          (case iter_err it of
             Some err \<Rightarrow> Inl (Wrapf ''close iterator'' err)
           | None \<Rightarrow> Inr (validate_loop None (iter_items it))))"

subsection \<open>Encryption through the client\<close>

text \<open>What the program relies on in age: what was encrypted for the recipients starts with the intro line and is
  decrypted by the identities.\<close>

locale age_pair =
  fixes cd :: codec and recipients identities :: "string list"
  assumes seals: "age_Encrypt cd recipients = Inr enc \<Longrightarrow> enc bs = (out, None) \<Longrightarrow> sealed out"
    and opens: "age_Encrypt cd recipients = Inr enc \<Longrightarrow> enc bs = (out, None) \<Longrightarrow> age_Decrypt cd identities (out, None) = Inr (bs, None)"

text \<open>What the client is given for a plaintext, when the encryption succeeds.\<close>

definition on_wire :: "codec \<Rightarrow> Replica \<Rightarrow> byte list \<Rightarrow> byte list" where
  "on_wire cd r bs =
     (if EncryptionEnabled r
      then (case age_Encrypt cd (rp_AgeRecipients r) of Inl _ \<Rightarrow> [] | Inr enc \<Rightarrow> fst (enc bs)) else bs)"

context replica_client
begin

lemma replica_write_ok:
  assumes "inv s" "txid_ok a" "txid_ok b" "rp_WriteLTXFile cd r client s level a b (bs, rerr) = (Inr info, s')"
  shows "inv s' \<and> rerr = None \<and> key info = (level, a, b) \<and> files s' = (files s)((level, a, b) \<mapsto> (on_wire cd r bs, CreatedAt info)) \<and>
         (rp_RequireEncryption r \<longrightarrow> EncryptionEnabled r) \<and>
         (EncryptionEnabled r \<longrightarrow> (\<exists>enc. age_Encrypt cd (rp_AgeRecipients r) = Inr enc \<and> enc bs = (on_wire cd r bs, None)))"
proof (cases "EncryptionEnabled r")
  case False
  then show ?thesis using assms write_ok [OF assms(1-3)] by (auto simp: rp_WriteLTXFile_def on_wire_def split: if_splits)
next
  case True
  obtain pr encErr where p: "encrypt_pipe cd (rp_AgeRecipients r) (bs, rerr) = (pr, encErr)" by (metis prod.exhaust)
  then have w: "WriteLTXFile client s level a b pr = (Inr info, s')"
    using assms(4) True by (auto simp: rp_WriteLTXFile_def split: sum.splits prod.splits)
  obtain out oerr where pr: "pr = (out, oerr)" by (cases pr)
  note wo = write_ok [OF assms(1-3) w [unfolded pr]]
  then have "\<exists>enc. age_Encrypt cd (rp_AgeRecipients r) = Inr enc \<and> enc bs = (out, None) \<and> rerr = None"
    using p pr by (auto simp: encrypt_pipe_def split: sum.splits prod.splits option.splits)
  then show ?thesis using wo True by (auto simp: on_wire_def)
qed

lemma replica_write_err:
  assumes "inv s" "txid_ok a" "txid_ok b" "rp_WriteLTXFile cd r client s level a b rd = (Inl e, s')"
  shows "inv s' \<and> (\<forall>k. k \<noteq> (level, a, b) \<longrightarrow> files s' k = files s k)"
proof -
  have "s' = s \<or> (\<exists>rd e. WriteLTXFile client s level a b rd = (Inl e, s'))"
    using assms(4) by (cases rd) (auto simp: rp_WriteLTXFile_def split: if_splits sum.splits prod.splits)
  then show ?thesis using write_err [OF assms(1-3)] assms(1) by blast
qed

lemma replica_open_ok:
  assumes "inv s" "txid_ok a" "txid_ok b" "rp_OpenLTXFile cd r client s level a b 0 0 = Inr (out, None)"
    and whole: "\<And>rc bs. OpenLTXFile client s level a b 0 0 = Inr (bs, rc) \<Longrightarrow> rc = None"
  shows "\<exists>c t. files s (level, a, b) = Some (c, t) \<and>
           (if DecryptionEnabled r \<and> sealed c then age_Decrypt cd (rp_AgeIdentities r) (c, None) = Inr (out, None) else out = c)"
proof -
  obtain bs where o: "OpenLTXFile client s level a b 0 0 = Inr (bs, None)"
    using assms(4) whole by (fastforce simp: rp_OpenLTXFile_def split: sum.splits prod.splits)
  then obtain c t where "files s (level, a, b) = Some (c, t)" "bs = c" using open_ok [OF assms(1-3) o] by (auto simp: range_of_def)
  with o assms(4) show ?thesis
    by (auto simp: rp_OpenLTXFile_def DecryptIfSealed_eq split: if_splits sum.splits)
qed

text \<open>One upload, and the loop over all missing ones.\<close>

lemma upload_effect:
  assumes "inv (rs_store st)" "txid_ok t" "uploadLTXFile cd r client db st 0 t t = (err, st')"
  shows "inv (rs_store st') \<and> rs_pos st' = rs_pos st \<and> rs_synced st' = rs_synced st \<and> (\<forall>k. k \<noteq> (0, t, t) \<longrightarrow> files (rs_store st') k = files (rs_store st) k) \<and>
         (err = None \<longrightarrow> (\<exists>bs ts. db_open db 0 t t = Inr (bs, None) \<and> files (rs_store st') (0, t, t) = Some (on_wire cd r bs, ts)))"
proof (cases "db_open db 0 t t")
  case (Inl e)
  then show ?thesis using assms by (auto simp: uploadLTXFile_def)
next
  case (Inr f)
  obtain bs rerr where f: "f = (bs, rerr)" by (cases f)
  obtain w s' where w: "rp_WriteLTXFile cd r client (rs_store st) 0 t t (bs, rerr) = (w, s')" by (metis prod.exhaust)
  show ?thesis
  proof (cases w)
    case (Inl e)
    then obtain e where "st' = st\<lparr>rs_store := s'\<rparr>" "err = Some e" using assms(3) Inr f w by (auto simp: uploadLTXFile_def)
    then show ?thesis using replica_write_err [OF assms(1,2,2) w [unfolded Inl]] by simp
  next
    case i: (Inr info)
    then have "st' = st\<lparr>rs_store := s'\<rparr>" "err = None" using assms(3) Inr f w by (auto simp: uploadLTXFile_def)
    then show ?thesis using replica_write_ok [OF assms(1,2,2) w [unfolded i]] Inr f by simp
  qed
qed

end

definition uploaded :: "codec \<Rightarrow> Replica \<Rightarrow> db_view \<Rightarrow> objects \<Rightarrow> txid \<Rightarrow> bool" where
  "uploaded cd r db fs t \<longleftrightarrow> (\<exists>bs ts. db_open db 0 t t = Inr (bs, None) \<and> fs (0, t, t) = Some (on_wire cd r bs, ts))"

context replica_client
begin

lemma sync_loop_effect:
  assumes "inv (rs_store st)" "dpos < 2 ^ 64 - 1" "rs_pos st < 2 ^ 64 - 1"
  shows "\<exists>err st'. sync_loop cd r client db dpos st = Some (err, st') \<and> inv (rs_store st') \<and> rs_pos st \<le> rs_pos st' \<and> rs_synced st' = rs_synced st \<and>
           (\<forall>k. (\<forall>t. rs_pos st < t \<and> t \<le> dpos \<longrightarrow> k \<noteq> (0, t, t)) \<longrightarrow> files (rs_store st') k = files (rs_store st) k) \<and>
           (\<forall>t. rs_pos st < t \<and> t \<le> rs_pos st' \<longrightarrow> uploaded cd r db (files (rs_store st')) t) \<and>
           (err = None \<longrightarrow> rs_pos st' = max (rs_pos st) dpos)"
  using assms
proof (induction "dpos - rs_pos st" arbitrary: st rule: less_induct)
  case less
  let ?t = "rs_pos st + 1"
  have t: "next_txid (rs_pos st) = ?t" using less.prems(3) by (rule next_txid_eq)
  show ?case
  proof (cases "?t \<le> dpos")
    case False
    then show ?thesis using less.prems(1) t by (subst sync_loop.simps) auto
  next
    case True
    have ok: "txid_ok ?t" using less.prems(3) by simp
    obtain e1 st1 where up: "uploadLTXFile cd r client db st 0 ?t ?t = (e1, st1)" by (metis prod.exhaust)
    note eff = upload_effect [OF less.prems(1) ok up]
    then have frame: "files (rs_store st1) k = files (rs_store st) k" if "k \<noteq> (0, ?t, ?t)" for k using that by blast
    show ?thesis
    proof (cases e1)
      case (Some e)
      then have "sync_loop cd r client db dpos st = Some (Some e, st1)" using t True up by (subst sync_loop.simps) simp
      moreover have "files (rs_store st1) k = files (rs_store st) k" if "\<forall>t. rs_pos st < t \<and> t \<le> dpos \<longrightarrow> k \<noteq> (0, t, t)" for k
        by (rule frame) (use True that in simp)
      ultimately show ?thesis using eff by (intro exI [of _ "Some e"] exI [of _ st1]) (simp add: not_le [symmetric])
    next
      case None
      let ?st = "st1\<lparr>rs_pos := ?t\<rparr>"
      have run: "sync_loop cd r client db dpos st = sync_loop cd r client db dpos ?st" using t True up None by (subst sync_loop.simps) simp
      have "dpos - rs_pos ?st < dpos - rs_pos st" using True by simp
      from less.hyps [OF this] obtain err st' where IH: "sync_loop cd r client db dpos ?st = Some (err, st')" "inv (rs_store st')" "?t \<le> rs_pos st'" "rs_synced st' = rs_synced st1"
          "\<forall>k. (\<forall>t. ?t < t \<and> t \<le> dpos \<longrightarrow> k \<noteq> (0, t, t)) \<longrightarrow> files (rs_store st') k = files (rs_store st1) k"
          "\<forall>t. ?t < t \<and> t \<le> rs_pos st' \<longrightarrow> uploaded cd r db (files (rs_store st')) t" "err = None \<longrightarrow> rs_pos st' = max ?t dpos"
        using eff True less.prems(2) by auto
      have "uploaded cd r db (files (rs_store st1)) ?t" using eff None by (auto simp: uploaded_def)
      then have here: "uploaded cd r db (files (rs_store st')) ?t" using IH(5) by (auto simp: uploaded_def)
      have "uploaded cd r db (files (rs_store st')) t" if "rs_pos st < t" "t \<le> rs_pos st'" for t
        using IH(6) here that by (cases "t = ?t") auto
      moreover have "files (rs_store st') k = files (rs_store st) k" if k: "\<forall>t. rs_pos st < t \<and> t \<le> dpos \<longrightarrow> k \<noteq> (0, t, t)" for k
      proof -
        have "k \<noteq> (0, ?t, ?t)" using k True by simp
        moreover have "files (rs_store st') k = files (rs_store st1) k" by (rule IH(5) [rule_format]) (use k in simp)
        ultimately show ?thesis using frame by simp
      qed
      ultimately show ?thesis using run IH(1-4,7) True eff by (intro exI [of _ err] exI [of _ st']) auto
    qed
  qed
qed

end

text \<open>Where \<open>Sync\<close> starts: the known position, or the one of the newest L0 file of the replica.\<close>

definition start_pos :: "'s ReplicaClient \<Rightarrow> 's rstate \<Rightarrow> txid" where
  "start_pos client st = (if rs_pos st = 0 then (case calcPos client (rs_store st) of Inl _ \<Rightarrow> 0 | Inr p \<Rightarrow> p) else rs_pos st)"

context replica_client
begin

lemma calcPos_bound:
  assumes "inv s" "\<forall>k v. files s k = Some v \<longrightarrow> snd (snd k) < 2 ^ 64 - 1" "calcPos client s = Inr p"
  shows "p < 2 ^ 64 - 1"
proof -
  obtain it where it: "LTXFiles client s 0 0 False = Inr it" "p = MaxTXID (max_info (iter_items it))"
    using assms(3) by (auto simp: calcPos_def rp_MaxLTXFileInfo_def split: sum.splits option.splits)
  have "max_info (iter_items it) \<in> insert zero_info (set (iter_items it))" using fold_max_info unfolding max_info_def by blast
  then show ?thesis
  proof
    assume "max_info (iter_items it) \<in> set (iter_items it)"
    then show ?thesis using list_items_any [OF assms(1) it(1)] assms(2) it(2) by fastforce
  qed (simp add: it(2) zero_info_def)
qed

lemma Sync_effect:
  assumes "inv (rs_store st)" "\<forall>k v. files (rs_store st) k = Some v \<longrightarrow> snd (snd k) < 2 ^ 64 - 1" "rs_pos st < 2 ^ 64 - 1"
    "\<forall>d. db_Pos db = Inr d \<longrightarrow> d < 2 ^ 64 - 1"
  shows "\<exists>err st'. Sync cd r client db now st = Some (err, st') \<and> inv (rs_store st') \<and>
           (\<forall>k. (\<forall>t. start_pos client st < t \<longrightarrow> k \<noteq> (0, t, t)) \<longrightarrow> files (rs_store st') k = files (rs_store st) k) \<and>
           (err \<noteq> None \<longrightarrow> rs_pos st' = 0 \<and> rs_synced st' = rs_synced st) \<and>
           (err = None \<longrightarrow> (\<exists>d. db_Pos db = Inr d \<and> rs_pos st' = max (start_pos client st) d \<and> rs_synced st' = now \<and>
                              (\<forall>t. start_pos client st < t \<and> t \<le> d \<longrightarrow> uploaded cd r db (files (rs_store st')) t)))"
proof -
  have quick: ?thesis if "sync_run cd r client db now st = Some (Some e, st1)" "rs_store st1 = rs_store st" "rs_synced st1 = rs_synced st" for e st1
    using that assms(1) by (intro exI [of _ "Some e"] exI [of _ "st1\<lparr>rs_pos := 0\<rparr>"]) (simp add: Sync_def)
  show ?thesis
  proof (cases "\<exists>e. rs_pos st = 0 \<and> calcPos client (rs_store st) = Inl e")
    case True
    then show ?thesis using quick by (auto simp: sync_run_def)
  next
    case False
    define st1 where "st1 = st\<lparr>rs_pos := start_pos client st\<rparr>"
    have st1: "(if rs_pos st = 0 then case calcPos client (rs_store st) of Inl err \<Rightarrow> Inl (Wrapf ''calc pos'' err) | Inr pos \<Rightarrow> Inr (st\<lparr>rs_pos := pos\<rparr>)
        else Inr st) = Inr st1"
      using False by (auto simp: st1_def start_pos_def split: sum.splits)
    have pos: "rs_pos st1 < 2 ^ 64 - 1" using False assms(3) calcPos_bound [OF assms(1,2)]
      by (auto simp: st1_def start_pos_def split: sum.splits)
    show ?thesis
    proof (cases "db_Pos db")
      case (Inl e)
      then show ?thesis using quick st1 by (simp add: sync_run_def st1_def)
    next
      case (Inr d)
      show ?thesis
      proof (cases "d = 0")
        case True
        then show ?thesis using quick st1 Inr by (simp add: sync_run_def st1_def)
      next
        case d: False
        have "inv (rs_store st1)" "d < 2 ^ 64 - 1" using assms(1,4) Inr by (simp_all add: st1_def)
        from sync_loop_effect [OF this pos, of cd r db] obtain err st' where
            run: "sync_loop cd r client db d st1 = Some (err, st')" and eff: "inv (rs_store st')" "rs_synced st' = rs_synced st1"
            "\<forall>k. (\<forall>t. rs_pos st1 < t \<and> t \<le> d \<longrightarrow> k \<noteq> (0, t, t)) \<longrightarrow> files (rs_store st') k = files (rs_store st1) k"
            "\<forall>t. rs_pos st1 < t \<and> t \<le> rs_pos st' \<longrightarrow> uploaded cd r db (files (rs_store st')) t" "err = None \<longrightarrow> rs_pos st' = max (rs_pos st1) d"
          by blast
        have sync: "Sync cd r client db now st = Some (err, if err = None then st'\<lparr>rs_synced := now\<rparr> else st'\<lparr>rs_pos := 0\<rparr>)"
          unfolding Sync_def sync_run_def st1 using Inr d run by (simp split: option.split)
        have frame: "files (rs_store st') k = files (rs_store st) k" if "\<forall>t. start_pos client st < t \<longrightarrow> k \<noteq> (0, t, t)" for k
        proof -
          have "files (rs_store st') k = files (rs_store st1) k" by (rule eff(3) [rule_format]) (use that in \<open>simp add: st1_def\<close>)
          then show ?thesis by (simp add: st1_def)
        qed
        show ?thesis
          unfolding sync using eff frame Inr
          by (intro exI conjI) (rule refl, auto simp: st1_def simp del: split_paired_All)
      qed
    qed
  qed
qed

end

definition sync_can_write :: "codec \<Rightarrow> Replica \<Rightarrow> 's ReplicaClient \<Rightarrow> db_view \<Rightarrow> ('s \<Rightarrow> bool) \<Rightarrow> txid \<Rightarrow> bool" where
  "sync_can_write cd r client db ready t \<longleftrightarrow>
     (\<exists>bs. db_open db 0 t t = Inr (bs, None) \<and> (\<forall>s. ready s \<longrightarrow> (\<exists>info s'. rp_WriteLTXFile cd r client s 0 t t (bs, None) = (Inr info, s') \<and> ready s')))"

context replica_client
begin

lemma sync_loop_progress:
  assumes "inv (rs_store st)" "dpos < 2 ^ 64 - 1" "rs_pos st < 2 ^ 64 - 1"
    "\<forall>t. rs_pos st < t \<and> t \<le> dpos \<longrightarrow> sync_can_write cd r client db ready t" "ready (rs_store st)"
  shows "\<exists>st'. sync_loop cd r client db dpos st = Some (None, st')"
  using assms
proof (induction "dpos - rs_pos st" arbitrary: st rule: less_induct)
  case less
  let ?t = "rs_pos st + 1"
  have t: "next_txid (rs_pos st) = ?t" using less.prems(3) by (rule next_txid_eq)
  show ?case
  proof (cases "?t \<le> dpos")
    case False
    then show ?thesis using t by (subst sync_loop.simps) auto
  next
    case True
    have ok: "txid_ok ?t" using less.prems(3) by simp
    have "sync_can_write cd r client db ready ?t" using less.prems(4) True by simp
    then obtain bs info s' where bs: "db_open db 0 ?t ?t = Inr (bs, None)" "rp_WriteLTXFile cd r client (rs_store st) 0 ?t ?t (bs, None) = (Inr info, s')" "ready s'"
      using less.prems(5) by (auto simp: sync_can_write_def)
    then have up: "uploadLTXFile cd r client db st 0 ?t ?t = (None, st\<lparr>rs_store := s'\<rparr>)" by (simp add: uploadLTXFile_def)
    let ?st = "st\<lparr>rs_store := s', rs_pos := ?t\<rparr>"
    have run: "sync_loop cd r client db dpos st = sync_loop cd r client db dpos ?st" using t True up by (subst sync_loop.simps) simp
    have 1: "dpos - rs_pos ?st < dpos - rs_pos st" using True by simp
    have 2: "inv (rs_store ?st)" using upload_effect [OF less.prems(1) ok up] by simp
    have 3: "rs_pos ?st < 2 ^ 64 - 1" using True less.prems(2) by simp
    show ?thesis unfolding run by (rule less.hyps [OF 1 2 less.prems(2) 3]) (use less.prems(4) bs(3) in auto)
  qed
qed

lemma Sync_progress:
  assumes "inv (rs_store st)" "d < 2 ^ 64 - 1" "rs_pos st < 2 ^ 64 - 1" "rs_pos st \<noteq> 0" "db_Pos db = Inr d" "d \<noteq> 0"
    "\<forall>t. rs_pos st < t \<and> t \<le> d \<longrightarrow> sync_can_write cd r client db ready t" "ready (rs_store st)"
  shows "\<exists>st'. Sync cd r client db now st = Some (None, st')"
  using sync_loop_progress [OF assms(1-3,7,8)] assms(4-6) by (auto simp: Sync_def sync_run_def)

end

subsection \<open>Properties\<close>


definition test_db :: db_view where
  "test_db = \<lparr>db_Pos = Inr 3, db_open = (\<lambda>_ t _. Inr ([of_nat t], None))\<rparr>"

definition test_replica :: Replica where
  "test_replica = NewReplica\<lparr>rp_AgeRecipients := [''r''], rp_AgeIdentities := [''i''], rp_RequireEncryption := True\<rparr>"



lemma doc_write_ready:
  assumes "fault s = (\<lambda>_. None)" and "sealed bs"
  shows "\<exists>info s'. WriteLTXFile doc_client s level a b (bs, None) = (Inr info, s') \<and> fault s' = (\<lambda>_. None)"
  using assms by (auto simp: doc_client_def file_client_def file_WriteLTXFile_def ExtractLTXTimestamp_eq MkdirAll_def Let_def
      put_file_def set_dir_def remove_file_def split: option.splits)


text \<open>
  C31. What a replica writes it reads back, and nothing leaves it in the clear when encryption is required: over any client
  that keeps its contract, a successful write stores the encryption of the plaintext (or the plaintext itself
  when no recipient is configured, which is refused if encryption is required), and a later complete
  read returns the plaintext, also from a replica that holds sealed and plain objects side by side.
\<close>

theorem replica_write_read:
  assumes "replica_client client files okay" and "okay s" and "txid_ok a" and "txid_ok b"
    and "age_pair cd (rp_AgeRecipients r) (rp_AgeIdentities r)" and "EncryptionEnabled r \<longrightarrow> DecryptionEnabled r"
    and "\<not> EncryptionEnabled r \<longrightarrow> \<not> sealed bs"
    and "rp_WriteLTXFile cd r client s level a b (bs, None) = (Inr info, s')"
    and "OpenLTXFile client s' level a b 0 0 = Inr (obj, None)" and "rp_OpenLTXFile cd r client s' level a b 0 0 = Inr (out, None)"
  shows "out = bs \<and> (rp_RequireEncryption r \<longrightarrow> sealed obj)"
proof -
  note w = replica_client.replica_write_ok [OF assms(1-4,8)]
  have obj: "obj = on_wire cd r bs" using replica_client.open_ok [OF assms(1) _ assms(3,4,9)] w by (auto simp: range_of_def)
  have "\<exists>c t. files s' (level, a, b) = Some (c, t) \<and>
      (if DecryptionEnabled r \<and> sealed c then age_Decrypt cd (rp_AgeIdentities r) (c, None) = Inr (out, None) else out = c)"
    by (rule replica_client.replica_open_ok [OF assms(1) _ assms(3,4,10)]) (use w assms(9) in auto)
  then have rd: "if DecryptionEnabled r \<and> sealed obj then age_Decrypt cd (rp_AgeIdentities r) (obj, None) = Inr (out, None) else out = obj"
    using w obj by auto
  show ?thesis
  proof (cases "EncryptionEnabled r")
    case True
    then obtain enc where e: "age_Encrypt cd (rp_AgeRecipients r) = Inr enc" "enc bs = (obj, None)" using w obj by auto
    show ?thesis using rd True assms(6) age_pair.seals [OF assms(5) e] age_pair.opens [OF assms(5) e] by simp
  next
    case False
    then show ?thesis using rd assms(7) obj w by (simp add: on_wire_def)
  qed
qed

definition doc_codec :: codec where
  "doc_codec = test_codec\<lparr>age_Decrypt := (\<lambda>_ rd. Inr (drop (length ageStreamIntro) (fst rd), snd rd))\<rparr>"

interpretation doc_age: age_pair doc_codec recipients identities for recipients identities
  by unfold_locales (auto simp: doc_codec_def test_codec_def sealed_def)

theorem replica_write_read_witness:
  "\<exists>info s'. rp_WriteLTXFile doc_codec test_replica doc_client empty_fs 0 1 2 ([7, 7], None) = (Inr info, s') \<and>
     rp_OpenLTXFile doc_codec test_replica doc_client s' 0 1 2 0 0 = Inr ([7, 7], None)"
proof -
  let ?w = "rp_WriteLTXFile doc_codec test_replica doc_client empty_fs 0 1 2 ([7, 7], None)"
  have "is_ok (fst ?w)" by code_simp
  then obtain info s' where w: "?w = (Inr info, s')" by (metis is_ok_iff prod.collapse)
  have "case OpenLTXFile doc_client (snd ?w) 0 1 2 0 0 of Inl _ \<Rightarrow> False | Inr (_, e) \<Rightarrow> e = None" by code_simp
  then obtain obj where o: "OpenLTXFile doc_client s' 0 1 2 0 0 = Inr (obj, None)" using w by (auto split: sum.splits)
  have "case rp_OpenLTXFile doc_codec test_replica doc_client (snd ?w) 0 1 2 0 0 of Inl _ \<Rightarrow> False | Inr (_, e) \<Rightarrow> e = None" by code_simp
  then obtain out where r: "rp_OpenLTXFile doc_codec test_replica doc_client s' 0 1 2 0 0 = Inr (out, None)" using w by (auto split: sum.splits)
  have "out = [7, 7] \<and> (rp_RequireEncryption test_replica \<longrightarrow> sealed obj)"
    by (rule replica_write_read [OF doc_client_contract fs_inv_empty _ _ doc_age.age_pair_axioms _ _ w o r])
      (simp_all add: EncryptionEnabled_def DecryptionEnabled_def test_replica_def)
  with w r show ?thesis by blast
qed

lemma validate_verify: "\<forall>i\<in>set its. MinTXID i \<le> MaxTXID i \<and> MaxTXID i < 2 ^ 64 - 1 \<Longrightarrow> validate_loop None its = [] \<longleftrightarrow> contiguous its"
proof (induction its rule: induct_list012)
  case (3 x y zs)
  then have "next_txid (MaxTXID x) = MaxTXID x + 1" by (simp add: next_txid_eq)
  with 3 show ?case by (auto simp: contiguous_def)
qed (simp_all add: contiguous_def)

text \<open>
  C32. The two validations of a level agree: \<open>ValidateLevel\<close> reports no issue exactly when the verification after a
  compaction passes, and then the files of the level are contiguous.
\<close>

theorem ValidateLevel_agrees:
  assumes "\<forall>it. LTXFiles (cp_client c) (remote w) level 0 False = Inr it \<longrightarrow>
             (\<forall>i\<in>set (iter_items it). MinTXID i \<le> MaxTXID i \<and> MaxTXID i < 2 ^ 64 - 1)"
  shows "ValidateLevel (cp_client c) (remote w) level = Inr [] \<longleftrightarrow> VerifyLevelConsistency c w level = None"
proof (cases "LTXFiles (cp_client c) (remote w) level 0 False")
  case (Inr it)
  then have b: "\<forall>i\<in>set (iter_items it). MinTXID i \<le> MaxTXID i \<and> MaxTXID i < 2 ^ 64 - 1" using assms by blast
  then have "(validate_loop None (iter_items it) = []) = (verify_loop None (iter_items it) = None)"
    using validate_verify verify_loop_iff by simp
  with Inr show ?thesis by (auto simp: ValidateLevel_def VerifyLevelConsistency_def split: option.splits)
qed (simp add: ValidateLevel_def VerifyLevelConsistency_def)

theorem ValidateLevel_agrees_witness:
  "ValidateLevel doc_client (mem_fs [((1, 5, 5), ([1], 5)), ((1, 1, 3), ([1], 6))]) 1 \<noteq> Inr [] \<and>
   VerifyLevelConsistency (NewCompactor doc_client) (world (mem_fs [((1, 5, 5), ([1], 5)), ((1, 1, 3), ([1], 6))])) 1 \<noteq> None"
proof -
  define s where "s = mem_fs [((1, 5, 5), ([1], 5)), ((1, 1, 3), ([1], 6))]"
  have bad: "VerifyLevelConsistency (NewCompactor doc_client) (world s) 1 \<noteq> None" unfolding s_def by code_simp
  have "case LTXFiles doc_client s 1 0 False of Inl _ \<Rightarrow> False | Inr it \<Rightarrow> (\<forall>i\<in>set (iter_items it). MinTXID i \<le> MaxTXID i \<and> MaxTXID i < 10)"
    unfolding s_def by code_simp
  then have "\<forall>it. LTXFiles (cp_client (NewCompactor doc_client)) (remote (world s)) 1 0 False = Inr it \<longrightarrow>
      (\<forall>i\<in>set (iter_items it). MinTXID i \<le> MaxTXID i \<and> MaxTXID i < 2 ^ 64 - 1)" by fastforce
  from ValidateLevel_agrees [OF this] bad show ?thesis unfolding s_def by simp
qed

subsection \<open>The backoff of the monitor and the time bounds\<close>

definition mon_ok :: "Replica \<Rightarrow> mon_state \<Rightarrow> bool" where
  "mon_ok r m \<longleftrightarrow> 0 \<le> mon_backoff m \<and> mon_backoff m \<le> max (rp_SyncInterval r) DefaultSyncBackoffMax \<and> (mon_errs m = 0 \<longrightarrow> mon_backoff m = 0)"

lemma next_backoff_bounds:
  "0 < rp_SyncInterval r \<Longrightarrow> 0 \<le> b \<Longrightarrow> 0 \<le> next_backoff r b \<and> next_backoff r b \<le> max (rp_SyncInterval r) DefaultSyncBackoffMax"
  by (auto simp: next_backoff_def DefaultSyncBackoffMax_def)

text \<open>
  C33. The backoff of the monitor stays between zero and the maximum (or the sync interval, if that is longer) over any
  sequence of results, it is zero when the last sync succeeded, and the local state is reset only when recovery
  is enabled and the error says that an LTX file is missing or corrupt.
\<close>

theorem monitor_backoff_bounded:
  assumes "0 < rp_SyncInterval r" and "mon_ok r m"
  shows "mon_ok r (fst (monitor_step r now err reset m)) \<and>
         (err = None \<longrightarrow> mon_backoff (fst (monitor_step r now err reset m)) = 0) \<and>
         (snd (monitor_step r now err reset m) \<longrightarrow>
            rp_AutoRecoverEnabled r \<and> (\<exists>e x. err = Some e \<and> as_LTXError e = Some x \<and> (missing_err (Err x) \<or> corrupt_err (Err x))))"
proof (cases err)
  case None
  then show ?thesis using assms by (simp add: monitor_step_def mon_ok_def)
next
  case (Some e)
  note nb = next_backoff_bounds [OF assms(1), of "mon_backoff m"]
  let ?m = "m\<lparr>mon_errs := mon_errs m + 1, mon_backoff := next_backoff r (mon_backoff m)\<rparr>"
  define m' where "m' = (if now - mon_lastLog ?m \<ge> SyncErrorLogInterval then ?m\<lparr>mon_lastLog := now\<rparr> else ?m)"
  have ok: "mon_ok r m'" "mon_ok r (m'\<lparr>mon_backoff := 0, mon_errs := 0\<rparr>)" using nb assms by (simp_all add: mon_ok_def m'_def)
  have "monitor_step r now err reset m =
      (if errors_Is e ctx_Canceled \<or> errors_Is e ctx_DeadlineExceeded then (m, False)
       else case as_LTXError e of None \<Rightarrow> (m', False)
         | Some x \<Rightarrow> if rp_AutoRecoverEnabled r \<and> IsAutoRecoverable x then (if reset = None then m'\<lparr>mon_backoff := 0, mon_errs := 0\<rparr> else m', True) else (m', False))"
    unfolding monitor_step_def Some option.case Let_def m'_def [symmetric] by (rule refl)
  then show ?thesis using ok assms(2) Some by (auto simp: IsAutoRecoverable_def split: option.split)
qed

theorem monitor_backoff_bounded_witness:
  "mon_ok NewReplica (fst (monitor_step NewReplica 100 (Some (Errorf ''x'')) None \<lparr>mon_backoff = 4 * minute, mon_lastLog = 0, mon_errs = 1\<rparr>)) \<and>
   mon_backoff (fst (monitor_step NewReplica 100 (Some (Errorf ''x'')) None \<lparr>mon_backoff = 4 * minute, mon_lastLog = 0, mon_errs = 1\<rparr>)) = 5 * minute"
proof -
  let ?m = "\<lparr>mon_backoff = 4 * minute, mon_lastLog = 0, mon_errs = 1\<rparr>"
  have "mon_ok NewReplica ?m" "0 < rp_SyncInterval NewReplica" by code_simp+
  from monitor_backoff_bounded [OF this(2,1), of 100 "Some (Errorf ''x'')" None]
  have "mon_ok NewReplica (fst (monitor_step NewReplica 100 (Some (Errorf ''x'')) None ?m))" by blast
  moreover have "mon_backoff (fst (monitor_step NewReplica 100 (Some (Errorf ''x'')) None ?m)) = 5 * minute" by code_simp
  ultimately show ?thesis by blast
qed

text \<open>The time bounds are the least and the greatest creation time seen; both are zero if there is none.\<close>

definition bounds_of :: "instant set \<Rightarrow> instant \<times> instant \<Rightarrow> bool" where
  "bounds_of S b \<longleftrightarrow> (if S = {} then b = (0, 0) else fst b \<in> S \<and> snd b \<in> S \<and> (\<forall>t\<in>S. fst b \<le> t \<and> t \<le> snd b))"

lemma extend_bounds_of: "bounds_of S b \<Longrightarrow> 0 \<notin> S \<Longrightarrow> bounds_of (insert t S) (extend_bounds t b)"
  by (cases b) (fastforce simp: bounds_of_def extend_bounds_def split: if_splits)

lemma fold_bounds_of: "bounds_of S b \<Longrightarrow> 0 \<notin> S \<Longrightarrow> 0 \<notin> set ts \<Longrightarrow> bounds_of (S \<union> set ts) (fold extend_bounds ts b)"
proof (induction ts arbitrary: S b)
  case (Cons t ts)
  then show ?case using Cons.IH [OF extend_bounds_of [OF Cons.prems(1,2)], of t] by simp
qed simp

lemma bounds_levels_of:
  assumes "bounds_levels client s levels b = (b', None)" and "bounds_of S b" and "0 \<notin> S"
    and "\<forall>l\<in>set levels. \<forall>i\<in>listed client s False l. CreatedAt i \<noteq> 0"
  shows "bounds_of (S \<union> CreatedAt ` (\<Union>l\<in>set levels. listed client s False l)) b'"
  using assms
proof (induction levels arbitrary: b S)
  case (Cons level levels)
  obtain it where it: "LTXFiles client s level 0 False = Inr it" "iter_err it = None"
    using Cons.prems(1) by (auto simp: Let_def split: sum.splits option.splits)
  let ?ts = "map CreatedAt (iter_items it)"
  have l: "listed client s False level = set (iter_items it)" by (simp add: listed_def it)
  have z: "0 \<notin> set ?ts" using Cons.prems(4) l by auto
  have run: "bounds_levels client s levels (fold extend_bounds ?ts b) = (b', None)"
    using Cons.prems(1) it by (simp add: Let_def fold_map comp_def)
  have "bounds_of ((S \<union> set ?ts) \<union> CreatedAt ` (\<Union>l\<in>set levels. listed client s False l)) b'"
    by (rule Cons.IH [OF run fold_bounds_of [OF Cons.prems(2,3) z]]) (use Cons.prems(3,4) z in auto)
  then show ?case by (simp add: l Un_assoc image_Un)
qed simp

end
