(* ===== verification/LocalFS.thy ===== *)
theory LocalFS
  imports GoErr Bytes Readers
begin

text \<open>
  The local files the restore functions of \<^verbatim>\<open>src/replica.go\<close> work on, through Go's \<^verbatim>\<open>os\<close> package. A file is its bytes
  under its path. Every system call draws one tick; \<open>lf_fault\<close> says which calls fail and with what error, and \<open>lf_short\<close>
  how many bytes a failing write has written. A process that is killed behaves like one whose calls fail from some
  tick on. \<open>lf_rand\<close> are the random bytes, by tick.
\<close>

record lfs =
  lf_files :: "string \<rightharpoonup> byte list"
  lf_tick :: nat
  lf_fault :: "nat \<Rightarrow> goerr option"
  lf_short :: "nat \<Rightarrow> nat"
  lf_rand :: "nat \<Rightarrow> u32"

definition sys :: "lfs \<Rightarrow> goerr option \<times> lfs" where
  "sys s = (lf_fault s (lf_tick s), s\<lparr>lf_tick := lf_tick s + 1\<rparr>)"

definition put :: "string \<Rightarrow> byte list option \<Rightarrow> lfs \<Rightarrow> lfs" where
  "put path c s = s\<lparr>lf_files := (lf_files s)(path := c)\<rparr>"

definition not_exist :: "string \<Rightarrow> goerr" where
  "not_exist op = PathError op (Sentinel os_ErrNotExist)"

text \<open>A call that changes a file only when it succeeds, given the error it has anyway.\<close>

definition call :: "goerr option \<Rightarrow> (lfs \<Rightarrow> lfs) \<Rightarrow> lfs \<Rightarrow> goerr option \<times> lfs" where
  "call err act s =
     (case sys s of
        (Some e, s) \<Rightarrow> (Some e, s)
      | (None, s) \<Rightarrow> (case err of Some e \<Rightarrow> (Some e, s) | None \<Rightarrow> (None, act s)))"

definition f_Sync :: "string \<Rightarrow> lfs \<Rightarrow> goerr option \<times> lfs" where
  "f_Sync path = call None id"

definition f_Close :: "string \<Rightarrow> lfs \<Rightarrow> goerr option \<times> lfs" where
  "f_Close path = call None id"

definition lf_MkdirAll :: "string \<Rightarrow> lfs \<Rightarrow> goerr option \<times> lfs" where
  "lf_MkdirAll path = call None id"

definition lf_Stat :: "string \<Rightarrow> lfs \<Rightarrow> goerr option \<times> lfs" where
  "lf_Stat path s = call (if lf_files s path = None then Some (not_exist ''stat'') else None) id s"

definition lf_Create :: "string \<Rightarrow> lfs \<Rightarrow> goerr option \<times> lfs" where
  "lf_Create path = call None (put path (Some []))"

definition lf_OpenRDWR :: "string \<Rightarrow> lfs \<Rightarrow> goerr option \<times> lfs" where
  "lf_OpenRDWR path s = call (if lf_files s path = None then Some (not_exist ''open'') else None) id s"

text \<open>\<open>os.OpenFile\<close> with \<open>O_CREATE\<close> and \<open>O_WRONLY\<close>: an existing file keeps its content.\<close>

definition lf_OpenCreate :: "string \<Rightarrow> lfs \<Rightarrow> goerr option \<times> lfs" where
  "lf_OpenCreate path = call None (\<lambda>s. case lf_files s path of None \<Rightarrow> put path (Some []) s | Some _ \<Rightarrow> s)"

definition lf_Remove :: "string \<Rightarrow> lfs \<Rightarrow> goerr option \<times> lfs" where
  "lf_Remove path s = call (if lf_files s path = None then Some (not_exist ''remove'') else None) (put path None) s"

definition lf_Rename :: "string \<Rightarrow> string \<Rightarrow> lfs \<Rightarrow> goerr option \<times> lfs" where
  "lf_Rename old new s =
     call (if lf_files s old = None then Some (not_exist ''rename'') else None) (put new (lf_files s old) \<circ> put old None) s"

definition lf_ReadFile :: "string \<Rightarrow> lfs \<Rightarrow> (goerr + byte list) \<times> lfs" where
  "lf_ReadFile path s =
     (case sys s of
        (Some e, s) \<Rightarrow> (Inl e, s)
      | (None, s) \<Rightarrow> (case lf_files s path of None \<Rightarrow> Inl (not_exist ''open'') | Some c \<Rightarrow> Inr c, s))"

text \<open>Writing into a file: behind its end the gap is filled with zeros. A failing write has written a part.\<close>

definition write_at :: "nat \<Rightarrow> byte list \<Rightarrow> byte list \<Rightarrow> byte list" where
  "write_at off data c = take off (c @ replicate (off - length c) 0) @ data @ drop (off + length data) c"

definition truncate_to :: "nat \<Rightarrow> byte list \<Rightarrow> byte list" where
  "truncate_to n c = take n (c @ replicate (n - length c) 0)"

definition f_WriteAt :: "string \<Rightarrow> byte list \<Rightarrow> nat \<Rightarrow> lfs \<Rightarrow> goerr option \<times> lfs" where
  "f_WriteAt path data off s =
     (let c = (case lf_files s path of None \<Rightarrow> [] | Some c \<Rightarrow> c) in
      case sys s of
        (Some e, s') \<Rightarrow>
          let part = take (lf_short s (lf_tick s)) data
          in (Some e, if part = [] then s' else put path (Some (write_at off part c)) s')
      | (None, s') \<Rightarrow> (None, put path (Some (write_at off data c)) s'))"

definition f_Truncate :: "string \<Rightarrow> nat \<Rightarrow> lfs \<Rightarrow> goerr option \<times> lfs" where
  "f_Truncate path n =
     call None (\<lambda>s. put path (Some (truncate_to n (case lf_files s path of None \<Rightarrow> [] | Some c \<Rightarrow> c))) s)"

text \<open>\<open>io.Copy\<close> of a stream into a file at a position: what was read is written before the error of the source.\<close>

definition io_Copy :: "string \<Rightarrow> nat \<Rightarrow> stream \<Rightarrow> lfs \<Rightarrow> goerr option \<times> lfs" where
  "io_Copy path pos rd s =
     (case f_WriteAt path (fst rd) pos s of
        (Some e, s) \<Rightarrow> (Some e, s)
      | (None, s) \<Rightarrow> (snd rd, s))"

subsection \<open>What the calls change\<close>

named_theorems lf_simps

lemma put_files [simp]: "lf_files (put path c s) = (lf_files s)(path := c)"
  by (simp add: put_def)

lemma put_oracle [simp]:
  "lf_fault (put path c s) = lf_fault s" "lf_short (put path c s) = lf_short s" "lf_rand (put path c s) = lf_rand s" "lf_tick (put path c s) = lf_tick s"
  by (simp_all add: put_def)

text \<open>The files after a call: unchanged if it fails, changed by its action otherwise.\<close>

lemma sys_files [simp]: "lf_files (snd (sys s)) = lf_files s"
  by (simp add: sys_def)

lemma call_id_files: "call err id s = (r, s') \<Longrightarrow> lf_files s' = lf_files s"
  by (auto simp: call_def sys_def split: option.splits)

lemma Sync_files: "f_Sync path s = (r, s') \<Longrightarrow> lf_files s' = lf_files s"
  and Close_files: "f_Close path s = (r, s') \<Longrightarrow> lf_files s' = lf_files s"
  and MkdirAll_files: "lf_MkdirAll path s = (r, s') \<Longrightarrow> lf_files s' = lf_files s"
  by (simp_all add: f_Sync_def f_Close_def lf_MkdirAll_def call_id_files)

lemma Stat_files: "lf_Stat path s = (r, s') \<Longrightarrow> lf_files s' = lf_files s \<and> (r = None \<longrightarrow> lf_files s path \<noteq> None)"
  by (auto simp: lf_Stat_def call_def sys_def split: option.splits if_splits)

lemma OpenRDWR_files: "lf_OpenRDWR path s = (r, s') \<Longrightarrow> lf_files s' = lf_files s \<and> (r = None \<longrightarrow> lf_files s path \<noteq> None)"
  by (auto simp: lf_OpenRDWR_def call_def sys_def split: option.splits if_splits)

lemma Create_files: "lf_Create path s = (r, s') \<Longrightarrow> lf_files s' = (if r = None then (lf_files s)(path \<mapsto> []) else lf_files s)"
  by (auto simp: lf_Create_def call_def sys_def split: option.splits)

lemma Remove_files: "lf_Remove path s = (r, s') \<Longrightarrow> lf_files s' = (if r = None then (lf_files s)(path := None) else lf_files s)"
  by (auto simp: lf_Remove_def call_def sys_def split: option.splits if_splits)

lemma Rename_files:
  "lf_Rename old new s = (r, s') \<Longrightarrow>
   lf_files s' = (if r = None then (lf_files s)(old := None, new := lf_files s old) else lf_files s) \<and>
   (r = None \<longrightarrow> lf_files s old \<noteq> None)"
  by (auto simp: lf_Rename_def call_def sys_def split: option.splits if_splits)

lemma WriteAt_files:
  assumes "f_WriteAt path data off s = (r, s')" and "lf_files s path = Some c"
  shows "\<exists>part. lf_files s' = (lf_files s)(path \<mapsto> part) \<and> (\<exists>k. part = write_at off (take k data) c \<or> part = c) \<and>
                (r = None \<longrightarrow> part = write_at off data c)"
proof (cases "lf_fault s (lf_tick s)")
  case None
  then show ?thesis using assms by (intro exI [of _ "write_at off data c"]) (auto simp: f_WriteAt_def sys_def Let_def intro!: exI [of _ "length data"])
next
  case (Some e)
  let ?part = "take (lf_short s (lf_tick s)) data"
  have "lf_files s' = (lf_files s)(path \<mapsto> if ?part = [] then c else write_at off ?part c)" "r \<noteq> None"
    using assms(1) unfolding f_WriteAt_def sys_def Let_def assms(2) Some by (auto simp: assms(2) fun_upd_idem split: if_splits)
  moreover have "?part = [] \<Longrightarrow> \<exists>k. c = write_at off (take k data) c \<or> c = c" by simp
  ultimately show ?thesis by (cases "?part = []") auto
qed

lemma Truncate_files:
  "f_Truncate path n s = (r, s') \<Longrightarrow> lf_files s path = Some c \<Longrightarrow>
   lf_files s' = (if r = None then (lf_files s)(path \<mapsto> truncate_to n c) else lf_files s)"
  by (auto simp: f_Truncate_def call_def sys_def split: option.splits)

lemma ReadFile_files:
  "lf_ReadFile path s = (r, s') \<Longrightarrow> lf_files s' = lf_files s \<and> (\<forall>c. r = Inr c \<longrightarrow> lf_files s path = Some c)"
  by (auto simp: lf_ReadFile_def sys_def split: option.splits)

lemma length_write_at: "length (write_at off data c) = max (length c) (off + length data)"
  by (simp add: write_at_def)

lemma nth_write_at:
  "i < length (write_at off data c) \<Longrightarrow>
   write_at off data c ! i = (if off \<le> i \<and> i < off + length data then data ! (i - off) else if i < length c then c ! i else 0)"
proof -
  let ?p = "take off (c @ replicate (off - length c) 0)"
  assume i: "i < length (write_at off data c)"
  have l: "length ?p = off" by simp
  consider "i < off" | "off \<le> i" "i < off + length data" | "off + length data \<le> i" by linarith
  then show ?thesis
  proof cases
    case 1
    then show ?thesis unfolding write_at_def nth_append l by (simp add: nth_append)
  next
    case 2
    then have "i - off < length data" by linarith
    then show ?thesis using 2 unfolding write_at_def nth_append l by simp
  next
    case 3
    then have "\<not> i - off < length data" by linarith
    then show ?thesis using 3 i unfolding length_write_at unfolding write_at_def nth_append l by (simp add: max_def split: if_splits)
  qed
qed

lemma length_truncate_to [simp]: "length (truncate_to n c) = n"
  by (simp add: truncate_to_def)

lemma nth_truncate_to: "i < n \<Longrightarrow> truncate_to n c ! i = (if i < length c then c ! i else 0)"
  by (simp add: truncate_to_def nth_append)

text \<open>The files outside of \<open>D\<close> are the same.\<close>

definition changes :: "string set \<Rightarrow> lfs \<Rightarrow> lfs \<Rightarrow> bool" where
  "changes D s s' \<longleftrightarrow> (\<forall>q. q \<notin> D \<longrightarrow> lf_files s' q = lf_files s q)"

lemma changes_refl [simp]: "changes D s s"
  by (simp add: changes_def)

lemma changes_trans [trans]: "changes D s s1 \<Longrightarrow> changes D s1 s2 \<Longrightarrow> changes D s s2"
  by (simp add: changes_def)

lemma changes_mono: "changes D s s' \<Longrightarrow> D \<subseteq> E \<Longrightarrow> changes E s s'"
  by (auto simp: changes_def)

lemma changes_files: "lf_files s' = lf_files s \<Longrightarrow> changes D s s'"
  by (simp add: changes_def)

lemma Sync_changes: "f_Sync path s = (r, s') \<Longrightarrow> changes D s s'"
  and Close_changes: "f_Close path s = (r, s') \<Longrightarrow> changes D s s'"
  and Stat_changes: "lf_Stat path s = (r, s') \<Longrightarrow> changes D s s'"
  and MkdirAll_changes: "lf_MkdirAll path s = (r, s') \<Longrightarrow> changes D s s'"
  by (simp_all add: changes_files Sync_files Close_files Stat_files MkdirAll_files)

lemma Create_changes: "lf_Create path s = (r, s') \<Longrightarrow> path \<in> D \<Longrightarrow> changes D s s'"
  using Create_files [of path s r s'] by (auto simp: changes_def split: if_splits)

lemma Remove_changes: "lf_Remove path s = (r, s') \<Longrightarrow> path \<in> D \<Longrightarrow> changes D s s'"
  using Remove_files [of path s r s'] by (auto simp: changes_def split: if_splits)

lemma OpenCreate_changes: "lf_OpenCreate path s = (r, s') \<Longrightarrow> path \<in> D \<Longrightarrow> changes D s s'"
  by (auto simp: lf_OpenCreate_def call_def sys_def changes_def split: option.splits)

lemma Rename_changes: "lf_Rename old new s = (r, s') \<Longrightarrow> old \<in> D \<Longrightarrow> new \<in> D \<Longrightarrow> changes D s s'"
  using Rename_files [of old new s r s'] by (auto simp: changes_def split: if_splits)

lemma WriteAt_changes: "f_WriteAt path data off s = (r, s') \<Longrightarrow> path \<in> D \<Longrightarrow> changes D s s'"
  by (auto simp: f_WriteAt_def sys_def Let_def changes_def split: option.splits if_splits)

lemma Copy_changes: "io_Copy path pos rd s = (r, s') \<Longrightarrow> path \<in> D \<Longrightarrow> changes D s s'"
  using WriteAt_changes [of path "fst rd" pos s] by (auto simp: io_Copy_def split: prod.splits option.splits)

lemmas lf_changes = Sync_changes Close_changes Stat_changes MkdirAll_changes Create_changes Remove_changes OpenCreate_changes
  Rename_changes WriteAt_changes Copy_changes

lemma Close_snd_files [simp]: "lf_files (snd (f_Close path s)) = lf_files s"
  using Close_files [of path s "fst (f_Close path s)" "snd (f_Close path s)"] by simp

lemma Remove_snd_changes: "path \<in> D \<Longrightarrow> changes D s (snd (lf_Remove path s))"
  using Remove_changes [of path s "fst (lf_Remove path s)" "snd (lf_Remove path s)"] by simp

end
