(* ===== verification/Follow.thy ===== *)
theory Follow
  imports Replica LocalFS
begin

text \<open>
  Follow mode (\<^verbatim>\<open>src/replica.go\<close>): the sidecar file with the last applied TXID, and the loop that applies new LTX files to
  a restored database file. The LTX decoder is the argument \<open>dec\<close>; it is given the page size of the buffer and the
  stream. The history of the source database and the meaning of an LTX file as a set of changed pages are stated
  with the theorems.
\<close>

subsection \<open>The TXID sidecar\<close>

definition TXIDPath :: "string \<Rightarrow> string" where
  "TXIDPath outputPath = outputPath @ ''-txid''"

text \<open>The functions of the LTX library on TXIDs: \<^verbatim>\<open>TXID.String\<close> and \<^verbatim>\<open>ParseTXID\<close>.\<close>

record txid_text =
  txid_String :: "txid \<Rightarrow> byte list"
  ParseTXID :: "byte list \<Rightarrow> goerr + txid"

text \<open>The deferred functions remove the temporary file and close the handle again.\<close>

definition txid_deferred :: "string \<Rightarrow> goerr option \<times> lfs \<Rightarrow> goerr option \<times> lfs" where
  "txid_deferred tmpPath = (\<lambda>(r, s). (r, snd (f_Close tmpPath (snd (lf_Remove tmpPath s)))))"

definition txid_commit :: "byte list \<Rightarrow> string \<Rightarrow> string \<Rightarrow> lfs \<Rightarrow> goerr option \<times> lfs" where
  "txid_commit line tmpPath txidPath s =
     (case f_WriteAt tmpPath line 0 s of
        (Some err, s) \<Rightarrow> (Some (Wrapf ''write txid'' err), s)
      | (None, s) \<Rightarrow>
     (case f_Sync tmpPath s of
        (Some err, s) \<Rightarrow> (Some (Wrapf ''sync txid file'' err), s)
      | (None, s) \<Rightarrow>
     (case f_Close tmpPath s of
        (Some err, s) \<Rightarrow> (Some (Wrapf ''close txid file'' err), s)
      | (None, s) \<Rightarrow>
     (case lf_Rename tmpPath txidPath s of
        (Some err, s) \<Rightarrow> (Some (Wrapf ''rename txid file'' err), s)
      | (None, s) \<Rightarrow>
     (case sys s of
        (Some err, s) \<Rightarrow> (Some (Wrapf ''open txid dir for sync'' err), s)
      | (None, s) \<Rightarrow>
     (case sys s of
        (Some err, s) \<Rightarrow> (Some (Wrapf ''sync txid dir'' err), snd (sys s))
      | (None, s) \<Rightarrow> sys s))))))"

definition WriteTXIDFile :: "txid_text \<Rightarrow> string \<Rightarrow> txid \<Rightarrow> lfs \<Rightarrow> goerr option \<times> lfs" where
  "WriteTXIDFile tt outputPath txid s =
     (let txidPath = TXIDPath outputPath; tmpPath = txidPath @ ''.tmp'' in
      case lf_Create tmpPath s of
        (Some err, s) \<Rightarrow> (Some (Wrapf ''create txid temp file'' err), s)
      | (None, s) \<Rightarrow> txid_deferred tmpPath (txid_commit (txid_String tt txid @ [10]) tmpPath txidPath s))"

text \<open>\<open>strings.TrimSpace\<close> on UTF-8 text: the white space characters of Unicode by their encodings.\<close>

definition utf8_spaces :: "byte list list" where
  "utf8_spaces = [[9], [10], [11], [12], [13], [32], [0xC2, 0x85], [0xC2, 0xA0], [0xE1, 0x9A, 0x80]] @
     map (\<lambda>b. [0xE2, 0x80, b]) [0x80, 0x81, 0x82, 0x83, 0x84, 0x85, 0x86, 0x87, 0x88, 0x89, 0x8A, 0xA8, 0xA9, 0xAF] @
     [[0xE2, 0x81, 0x9F], [0xE3, 0x80, 0x80]]"

fun trim_left :: "byte list list \<Rightarrow> nat \<Rightarrow> byte list \<Rightarrow> byte list" where
  "trim_left sps 0 bs = bs"
| "trim_left sps (Suc n) bs =
     (case List.find (\<lambda>sp. take (length sp) bs = sp) sps of
        None \<Rightarrow> bs
      | Some sp \<Rightarrow> trim_left sps n (drop (length sp) bs))"

text \<open>Each round removes at least one byte, so the length of the text bounds the rounds.\<close>

definition TrimSpace :: "byte list \<Rightarrow> byte list" where
  "TrimSpace bs =
     (let l = trim_left utf8_spaces (length bs) bs
      in rev (trim_left (map rev utf8_spaces) (length l) (rev l)))"

definition ReadTXIDFile :: "txid_text \<Rightarrow> string \<Rightarrow> lfs \<Rightarrow> (goerr + txid) \<times> lfs" where
  "ReadTXIDFile tt outputPath s =
     (case lf_ReadFile (TXIDPath outputPath) s of
        (Inl err, s) \<Rightarrow> (if os_IsNotExist err then Inr 0 else Inl (Wrapf ''read txid file'' err), s)
      | (Inr data, s) \<Rightarrow>
          (case ParseTXID tt (TrimSpace data) of
             Inl err \<Rightarrow> Inl (Wrapf ''parse txid file'' err)
           | Inr txid \<Rightarrow> Inr txid, s))"

subsection \<open>Applying an LTX file\<close>

text \<open>What the decoder delivers for a stream: the error of the header, the size of the database in pages after the
  transaction, the pages, the error that ends them (\<open>None\<close> is the end of the file) and the error of \<open>Close\<close>.\<close>

record ltx_decoded =
  ld_header :: "goerr option"
  ld_commit :: u32
  ld_pages :: "(u32 \<times> byte list) list"
  ld_err :: "goerr option"
  ld_close :: "goerr option"

type_synonym ltx_decoder = "nat \<Rightarrow> stream \<Rightarrow> ltx_decoded"

text \<open>The header of the first page is set to the rollback journal mode, and the schema counter to random bytes.\<close>

definition patch_header :: "u32 \<Rightarrow> byte list \<Rightarrow> u32 \<Rightarrow> byte list" where
  "patch_header pgno data rnd =
     (if pgno = 1 \<and> length data \<ge> 28
      then take 18 data @ [1, 1] @ take 4 (drop 20 data) @ PutUint32 BigEndian rnd @ drop 28 data
      else data)"

fun apply_pages :: "string \<Rightarrow> nat \<Rightarrow> (u32 \<times> byte list) list \<Rightarrow> goerr option \<Rightarrow> lfs \<Rightarrow> goerr option \<times> lfs" where
  "apply_pages f pageSize [] end_err s = (map_option (Wrapf ''decode page'') end_err, s)"
| "apply_pages f pageSize ((pgno, data) # rest) end_err s =
     (let data = patch_header pgno data (lf_rand s (lf_tick s)); off = unat (pgno - 1) * pageSize in
      case f_WriteAt f data off s of
        (Some err, s) \<Rightarrow> (Some (Wrapf ''write page'' err), s)
      | (None, s) \<Rightarrow> apply_pages f pageSize rest end_err s)"

definition applyLTXFile ::
  "ltx_decoder \<Rightarrow> codec \<Rightarrow> Replica \<Rightarrow> 's ReplicaClient \<Rightarrow> 's \<Rightarrow> string \<Rightarrow> FileInfo \<Rightarrow> nat \<Rightarrow> lfs \<Rightarrow> goerr option \<times> lfs" where
  "applyLTXFile dec cd r client st f info pageSize s =
     (case rp_OpenLTXFile cd r client st (FLevel info) (MinTXID info) (MaxTXID info) 0 0 of
        Inl err \<Rightarrow> (Some (Wrapf ''open ltx file'' err), s)
      | Inr rc \<Rightarrow>
          let d = dec pageSize rc in
          case ld_header d of
            Some err \<Rightarrow> (Some (Wrapf ''decode header'' err), s)
          | None \<Rightarrow>
          (case sys s of
             (Some err, s) \<Rightarrow> (Some (Wrapf ''acquire exclusive lock'' err), s)
           | (None, s) \<Rightarrow>
          (case apply_pages f pageSize (ld_pages d) (ld_err d) s of
             (Some err, s) \<Rightarrow> (Some err, s)
           | (None, s) \<Rightarrow>
          (case (if ld_commit d > 0 then f_Truncate f (unat (ld_commit d) * pageSize) s else (None, s)) of
             (Some err, s) \<Rightarrow> (Some (Wrapf ''truncate'' err), s)
           | (None, s) \<Rightarrow>
          (case ld_close d of
             Some err \<Rightarrow> (Some (Wrapf ''close decoder'' err), s)
           | None \<Rightarrow> f_Sync f s)))))"

subsection \<open>Polling for new files\<close>

text \<open>The functions \<open>closeLevel\<close> and \<open>closeLevel0\<close>: the error of the iterator joins the error given.\<close>

definition close_iter :: "string \<Rightarrow> file_iter \<Rightarrow> goerr option \<Rightarrow> goerr option" where
  "close_iter msg it retErr =
     (case iter_err it of
        None \<Rightarrow> retErr
      | Some e \<Rightarrow> Some (case retErr of None \<Rightarrow> Wrapf msg e | Some e' \<Rightarrow> Join e' (Wrapf msg e)))"

text \<open>
  What the loops of follow mode are given besides their state. A loop over the items of an iterator results in the
  value the function returns from inside the loop, if it does, the current TXID and the files.
\<close>

record 's follow_ctx =
  fc_dec :: ltx_decoder
  fc_codec :: codec
  fc_replica :: Replica
  fc_client :: "'s ReplicaClient"
  fc_path :: string
  fc_pageSize :: nat

definition fc_apply :: "'s follow_ctx \<Rightarrow> 's \<Rightarrow> FileInfo \<Rightarrow> lfs \<Rightarrow> goerr option \<times> lfs" where
  "fc_apply x st info s =
     applyLTXFile (fc_dec x) (fc_codec x) (fc_replica x) (fc_client x) st (fc_path x) info (fc_pageSize x) s"

fun fill_items ::
  "'s follow_ctx \<Rightarrow> 's \<Rightarrow> file_iter \<Rightarrow> txid \<Rightarrow> FileInfo list \<Rightarrow> txid \<Rightarrow> lfs \<Rightarrow> goerr option option \<times> txid \<times> lfs" where
  "fill_items x st it gapMinTXID [] currentTXID s = (None, currentTXID, s)"
| "fill_items x st it gapMinTXID (info # rest) currentTXID s =
     (if MinTXID info > next_txid currentTXID then (None, currentTXID, s)
      else if MaxTXID info \<le> currentTXID then fill_items x st it gapMinTXID rest currentTXID s
      else case fc_apply x st info s of
        (Some err, s) \<Rightarrow> (Some (close_iter ''close level ltx iterator'' it (Some (Wrapf ''apply gap-fill ltx file'' err))), currentTXID, s)
      | (None, s) \<Rightarrow>
          if next_txid (MaxTXID info) \<ge> gapMinTXID
          then (Some (close_iter ''close level ltx iterator'' it None), MaxTXID info, s)
          else fill_items x st it gapMinTXID rest (MaxTXID info) s)"

fun fill_levels ::
  "'s follow_ctx \<Rightarrow> 's \<Rightarrow> txid \<Rightarrow> txid \<Rightarrow> int list \<Rightarrow> txid \<Rightarrow> lfs \<Rightarrow> goerr option \<times> txid \<times> lfs" where
  "fill_levels x st afterTXID gapMinTXID [] currentTXID s = (None, currentTXID, s)"
| "fill_levels x st afterTXID gapMinTXID (level # levels) currentTXID s =
     (case LTXFiles (fc_client x) st level 0 False of
        Inl err \<Rightarrow> (Some (Wrapf ''list level ltx files'' err), currentTXID, s)
      | Inr it \<Rightarrow>
          (case fill_items x st it gapMinTXID (iter_items it) currentTXID s of
             (Some r, currentTXID, s) \<Rightarrow> (r, currentTXID, s)
           | (None, currentTXID, s) \<Rightarrow>
               (case iter_err it of
                  Some e \<Rightarrow> (close_iter ''close level ltx iterator'' it (Some (Wrapf ''iterate level ltx files'' e)), currentTXID, s)
                | None \<Rightarrow>
                    if currentTXID > afterTXID then (None, currentTXID, s)
                    else fill_levels x st afterTXID gapMinTXID levels currentTXID s)))"

definition fillFollowGap :: "'s follow_ctx \<Rightarrow> 's \<Rightarrow> txid \<Rightarrow> txid \<Rightarrow> lfs \<Rightarrow> goerr option \<times> txid \<times> lfs" where
  "fillFollowGap x st afterTXID gapMinTXID s = fill_levels x st afterTXID gapMinTXID [1..SnapshotLevel - 1] afterTXID s"

fun level0_items ::
  "'s follow_ctx \<Rightarrow> 's \<Rightarrow> file_iter \<Rightarrow> FileInfo list \<Rightarrow> txid \<Rightarrow> lfs \<Rightarrow> goerr option option \<times> txid \<times> lfs" where
  "level0_items x st it [] currentTXID s = (None, currentTXID, s)"
| "level0_items x st it (info # rest) currentTXID s =
     (case (if MinTXID info > next_txid currentTXID then fillFollowGap x st currentTXID (MinTXID info) s
            else (None, currentTXID, s)) of
        (Some err, _, s) \<Rightarrow> (Some (close_iter ''close level 0 ltx iterator'' it (Some err)), currentTXID, s)
      | (None, currentTXID, s) \<Rightarrow>
          if MaxTXID info \<le> currentTXID then level0_items x st it rest currentTXID s
          else if MinTXID info > next_txid currentTXID
          then (Some (close_iter ''close level 0 ltx iterator'' it None), currentTXID, s)
          else case fc_apply x st info s of
            (Some err, s) \<Rightarrow> (Some (close_iter ''close level 0 ltx iterator'' it (Some (Wrapf ''apply ltx file'' err))), currentTXID, s)
          | (None, s) \<Rightarrow> level0_items x st it rest (MaxTXID info) s)"

definition applyNewLTXFiles :: "'s follow_ctx \<Rightarrow> 's \<Rightarrow> txid \<Rightarrow> lfs \<Rightarrow> goerr option \<times> txid \<times> lfs" where
  "applyNewLTXFiles x st afterTXID s =
     (case LTXFiles (fc_client x) st 0 (next_txid afterTXID) False of
        Inl err \<Rightarrow> (Some (Wrapf ''list level 0 ltx files'' err), afterTXID, s)
      | Inr it \<Rightarrow>
          (case level0_items x st it (iter_items it) afterTXID s of
             (Some r, currentTXID, s) \<Rightarrow> (r, currentTXID, s)
           | (None, currentTXID, s) \<Rightarrow>
               (case iter_err it of
                  Some e \<Rightarrow> (close_iter ''close level 0 ltx iterator'' it (Some (Wrapf ''iterate level 0 ltx files'' e)), currentTXID, s)
                | None \<Rightarrow>
                    if iter_items it = []
                    then (case fillFollowGap x st currentTXID (next_txid currentTXID) s of
                            (Some err, _, s) \<Rightarrow> (Some err, currentTXID, s)
                          | (None, bridgedTXID, s) \<Rightarrow> (None, bridgedTXID, s))
                    else (None, currentTXID, s))))"

subsection \<open>The loop\<close>

text \<open>
  \<open>follow\<close> opens the database and reads the page size of its header; then every tick polls once. A poll results in
  what \<open>follow\<close> returns, if it does, the last TXID, the number of consecutive errors and the files.
\<close>

definition follow_open :: "string \<Rightarrow> lfs \<Rightarrow> (goerr + nat) \<times> lfs" where
  "follow_open path s =
     (case lf_OpenRDWR path s of
        (Some err, s) \<Rightarrow> (Inl (Wrapf ''open database for follow'' err), s)
      | (None, s) \<Rightarrow>
          (case lf_ReadFile path s of
             (Inl err, s) \<Rightarrow> (Inl (Wrapf ''read page size from database header'' err), s)
           | (Inr c, s) \<Rightarrow>
               (if length c < 18 then Inl (Wrapf ''read page size from database header'' (Sentinel io_EOF))
                else let pageSize = unat (c ! 16) * 256 + unat (c ! 17)
                     in Inr (if pageSize = 1 then 65536 else pageSize), s)))"

definition follow_poll ::
  "txid_text \<Rightarrow> 's follow_ctx \<Rightarrow> 's \<Rightarrow> bool \<Rightarrow> txid \<times> nat \<times> lfs \<Rightarrow> goerr option option \<times> txid \<times> nat \<times> lfs" where
  "follow_poll tt x st ctx_err = (\<lambda>(lastTXID, consecutiveErrors, s).
     case applyNewLTXFiles x st lastTXID s of
       (Some err, _, s) \<Rightarrow>
         if ctx_err then (Some None, lastTXID, consecutiveErrors, s)
         else (None, lastTXID, consecutiveErrors + 1, s)
     | (None, newTXID, s) \<Rightarrow>
         if newTXID > lastTXID
         then (case WriteTXIDFile tt (fc_path x) newTXID s of
                 (Some err, s) \<Rightarrow> (Some (Some (Wrapf ''write txid file'' err)), lastTXID, consecutiveErrors, s)
               | (None, s) \<Rightarrow> (None, newTXID, 0, s))
         else (None, lastTXID, consecutiveErrors, s))"

datatype 's follow_event = CtxDone | Tick 's bool

fun follow_loop ::
  "txid_text \<Rightarrow> 's follow_ctx \<Rightarrow> 's follow_event list \<Rightarrow> txid \<times> nat \<times> lfs \<Rightarrow> goerr option option \<times> txid \<times> nat \<times> lfs" where
  "follow_loop tt x [] v = (None, v)"
| "follow_loop tt x (CtxDone # es) v = (Some None, v)"
| "follow_loop tt x (Tick st ctx_err # es) v =
     (case follow_poll tt x st ctx_err v of
        (Some r, v) \<Rightarrow> (Some r, v)
      | (None, v) \<Rightarrow> follow_loop tt x es v)"

subsection \<open>The history of the source database\<close>

text \<open>
  \<open>hist t\<close> is the image of the source database after transaction \<open>t\<close>. An LTX file for the transactions \<open>a\<close> to \<open>b\<close> holds the
  size of the database after \<open>b\<close> and pages as they are after \<open>b\<close>; the bytes outside of these pages did not change from
  before \<open>a\<close> to \<open>b\<close>. A decoder delivers some of the first pages, and all of them if it reports the end of the file.
\<close>

definition bstable :: "(txid \<Rightarrow> byte list) \<Rightarrow> txid \<Rightarrow> txid \<Rightarrow> nat \<Rightarrow> bool" where
  "bstable hist u v i \<longleftrightarrow> (\<forall>t. u \<le> t \<and> t \<le> v \<longrightarrow> i < length (hist t) \<and> hist t ! i = hist v ! i)"

definition page_of :: "nat \<Rightarrow> u32 \<Rightarrow> nat \<Rightarrow> bool" where
  "page_of ps pgno i \<longleftrightarrow> unat (pgno - 1) * ps \<le> i \<and> i < unat (pgno - 1) * ps + ps"

definition page_ok :: "nat \<Rightarrow> byte list \<Rightarrow> u32 \<times> byte list \<Rightarrow> bool" where
  "page_ok ps h = (\<lambda>(pgno, data). pgno \<noteq> 0 \<and> length data = ps \<and>
     (\<forall>i. page_of ps pgno i \<longrightarrow> i < length h \<and> data ! (i - unat (pgno - 1) * ps) = h ! i))"

definition delta :: "(txid \<Rightarrow> byte list) \<Rightarrow> nat \<Rightarrow> u32 \<Rightarrow> (u32 \<times> byte list) list \<Rightarrow> txid \<Rightarrow> txid \<Rightarrow> bool" where
  "delta hist ps commit pages a b \<longleftrightarrow>
     commit > 0 \<and> length (hist b) = unat commit * ps \<and> (\<forall>pg\<in>set pages. page_ok ps (hist b) pg) \<and>
     (\<forall>i<length (hist b). (\<forall>pg\<in>set pages. \<not> page_of ps (fst pg) i) \<longrightarrow> bstable hist (a - 1) b i)"

definition delivers :: "(txid \<Rightarrow> byte list) \<Rightarrow> nat \<Rightarrow> ltx_decoded \<Rightarrow> txid \<Rightarrow> txid \<Rightarrow> bool" where
  "delivers hist ps d a b \<longleftrightarrow>
     (ld_header d = None \<longrightarrow>
        (\<exists>pages. delta hist ps (ld_commit d) pages a b \<and> prefix (ld_pages d) pages \<and> (ld_err d = None \<longrightarrow> ld_pages d = pages)))"

text \<open>The bytes of the header that follow mode sets: the journal mode and the schema counter.\<close>

definition patched :: "nat set" where
  "patched = {18, 19, 24, 25, 26, 27}"

definition follows :: "byte list \<Rightarrow> byte list \<Rightarrow> bool" where
  "follows c h \<longleftrightarrow> length c = length h \<and> (\<forall>i<length h. i \<notin> patched \<longrightarrow> c ! i = h ! i)"

lemma follows_small: "length h \<le> 18 \<Longrightarrow> follows c h \<Longrightarrow> c = h"
  by (auto simp: follows_def patched_def intro!: nth_equalityI)

text \<open>
  The invariant of follow mode. \<open>u\<close> is the TXID the database is at, \<open>m\<close> bounds the TXIDs of the files that may have been
  applied in part. Bytes that do not change from \<open>u\<close> up to \<open>m\<close> are as in the history; when \<open>m\<close> is not above \<open>u\<close>, all are.
\<close>

definition tracks :: "(txid \<Rightarrow> byte list) \<Rightarrow> txid \<Rightarrow> txid \<Rightarrow> byte list \<Rightarrow> bool" where
  "tracks hist u m c \<longleftrightarrow>
     (\<forall>i. i \<notin> patched \<longrightarrow> bstable hist u (max u m) i \<longrightarrow> i < length c \<and> c ! i = hist (max u m) ! i) \<and>
     (m \<le> u \<longrightarrow> length c = length (hist u))"

lemma bstable_same: "bstable hist u u i \<longleftrightarrow> i < length (hist u)"
  by (auto simp: bstable_def)

lemma bstable_sub: "bstable hist u v i \<Longrightarrow> u \<le> u' \<Longrightarrow> u' \<le> v' \<Longrightarrow> v' \<le> v \<Longrightarrow> bstable hist u' v' i"
  unfolding bstable_def by (metis order.trans)

lemma bstable_nth: "bstable hist u v i \<Longrightarrow> u \<le> t \<Longrightarrow> t \<le> v \<Longrightarrow> i < length (hist t) \<and> hist t ! i = hist v ! i"
  unfolding bstable_def by blast

lemma bstable_join: "bstable hist u b i \<Longrightarrow> bstable hist b v i \<Longrightarrow> u \<le> b \<Longrightarrow> b \<le> v \<Longrightarrow> bstable hist u v i"
  unfolding bstable_def by (metis order.refl nat_le_linear)

lemma tracks_exact: "m \<le> u \<Longrightarrow> tracks hist u m c \<longleftrightarrow> follows c (hist u)"
  by (auto simp: tracks_def follows_def bstable_same max_absorb1)

lemma tracks_mono:
  assumes "tracks hist u m c" and "m \<le> m'"
  shows "tracks hist u m' c"
proof -
  have "i < length c \<and> c ! i = hist (max u m') ! i" if "i \<notin> patched" "bstable hist u (max u m') i" for i
  proof -
    have "bstable hist u (max u m) i" by (rule bstable_sub [OF that(2)]) (use assms(2) in auto)
    moreover have "hist (max u m) ! i = hist (max u m') ! i" using bstable_nth [OF that(2), of "max u m"] assms(2) by simp
    ultimately show ?thesis using assms(1) that(1) by (auto simp: tracks_def)
  qed
  then show ?thesis using assms by (auto simp: tracks_def)
qed

lemma tracks_back:
  assumes "tracks hist u' m c" and "u \<le> u'" and "u' \<le> max u m"
  shows "tracks hist u m c"
proof -
  have m: "max u' m = max u m" using assms by simp
  have "i < length c \<and> c ! i = hist (max u m) ! i" if "i \<notin> patched" "bstable hist u (max u m) i" for i
    using assms(1) that(1) bstable_sub [OF that(2) assms(2,3)] by (simp add: tracks_def m)
  moreover have "m \<le> u \<Longrightarrow> length c = length (hist u)" using assms by (auto simp: tracks_def)
  ultimately show ?thesis by (simp add: tracks_def)
qed

subsection \<open>One file\<close>

lemma length_patch [simp]: "length (patch_header pgno data rnd) = length data"
  by (auto simp: patch_header_def min_def)

lemma nth_patch:
  assumes "j < length data" and "unat (pgno - 1) * ps + j \<notin> patched"
  shows "patch_header pgno data rnd ! j = data ! j"
  using assms by (auto simp: patch_header_def patched_def nth_append)

text \<open>What writing pages does to the bytes: \<open>mixes\<close> for a part of them, \<open>wrote\<close> for all.\<close>

definition mixes :: "byte list \<Rightarrow> byte list \<Rightarrow> byte list \<Rightarrow> bool" where
  "mixes h c c' \<longleftrightarrow> length c \<le> length c' \<and> (\<forall>i<length c. i \<notin> patched \<longrightarrow> c' ! i = c ! i \<or> (i < length h \<and> c' ! i = h ! i))"

definition wrote :: "nat \<Rightarrow> (u32 \<times> byte list) list \<Rightarrow> byte list \<Rightarrow> byte list \<Rightarrow> byte list \<Rightarrow> bool" where
  "wrote ps pages h c c' \<longleftrightarrow> length c \<le> length c' \<and>
     (\<forall>i. i \<notin> patched \<longrightarrow> (if \<exists>pg\<in>set pages. page_of ps (fst pg) i then i < length c' \<and> c' ! i = h ! i else i < length c \<longrightarrow> c' ! i = c ! i))"

lemma mixes_refl [simp]: "mixes h c c"
  by (simp add: mixes_def)

lemma mixes_trans: "mixes h c c1 \<Longrightarrow> mixes h c1 c2 \<Longrightarrow> mixes h c c2"
  by (auto simp: mixes_def) (metis order_less_le_trans)+

lemma write_page:
  assumes "page_ok ps h (pgno, data)"
  shows "mixes h c (write_at (unat (pgno - 1) * ps) (take k (patch_header pgno data rnd)) c)"
    and "wrote ps [(pgno, data)] h c (write_at (unat (pgno - 1) * ps) (patch_header pgno data rnd) c)"
proof -
  let ?off = "unat (pgno - 1) * ps" and ?d = "patch_header pgno data rnd"
  have h: "i < length h \<and> ?d ! (i - ?off) = h ! i" if "page_of ps pgno i" "i \<notin> patched" for i
    using that assms nth_patch [of "i - ?off" data pgno ps rnd] by (auto simp: page_ok_def page_of_def)
  have len: "length data = ps" using assms by (simp add: page_ok_def)
  show "mixes h c (write_at ?off (take k ?d) c)"
    using h len by (auto simp: mixes_def length_write_at nth_write_at page_of_def)
  have "if page_of ps pgno i then i < length (write_at ?off ?d c) \<and> write_at ?off ?d c ! i = h ! i
        else i < length c \<longrightarrow> write_at ?off ?d c ! i = c ! i" if "i \<notin> patched" for i
  proof (cases "page_of ps pgno i")
    case True
    then have "i < length (write_at ?off ?d c)" by (auto simp: length_write_at len page_of_def)
    then show ?thesis using True h [OF True that] by (simp add: nth_write_at len page_of_def)
  next
    case False
    then show ?thesis by (auto simp: nth_write_at length_write_at len page_of_def)
  qed
  moreover have "length c \<le> length (write_at ?off ?d c)" by (simp add: length_write_at)
  ultimately show "wrote ps [(pgno, data)] h c (write_at ?off ?d c)" by (simp add: wrote_def)
qed

lemma wrote_Cons: "wrote ps [pg] h c c1 \<Longrightarrow> wrote ps pages h c1 c2 \<Longrightarrow> wrote ps (pg # pages) h c c2"
proof -
  assume w: "wrote ps [pg] h c c1" "wrote ps pages h c1 c2"
  have "if \<exists>q\<in>set (pg # pages). page_of ps (fst q) i then i < length c2 \<and> c2 ! i = h ! i else i < length c \<longrightarrow> c2 ! i = c ! i"
    if i: "i \<notin> patched" for i
  proof -
    have a: "if page_of ps (fst pg) i then i < length c1 \<and> c1 ! i = h ! i else i < length c \<longrightarrow> c1 ! i = c ! i" "length c \<le> length c1"
      using w(1) i by (simp_all add: wrote_def)
    have b: "if \<exists>q\<in>set pages. page_of ps (fst q) i then i < length c2 \<and> c2 ! i = h ! i else i < length c1 \<longrightarrow> c2 ! i = c1 ! i" "length c1 \<le> length c2"
      using w(2) i by (simp_all add: wrote_def)
    show ?thesis
      by (cases "\<exists>q\<in>set pages. page_of ps (fst q) i"; cases "page_of ps (fst pg) i") (use a b in simp_all)
  qed
  moreover have "length c \<le> length c2" using w by (simp add: wrote_def)
  ultimately show ?thesis unfolding wrote_def by blast
qed

lemma apply_pages_effect:
  assumes "apply_pages f ps pages end_err s = (r, s')" and "lf_files s f = Some c" and "\<forall>pg\<in>set pages. page_ok ps h pg"
  shows "\<exists>c'. lf_files s' = (lf_files s)(f \<mapsto> c') \<and> mixes h c c' \<and> (r = None \<longrightarrow> end_err = None \<and> wrote ps pages h c c')"
  using assms
proof (induction pages arbitrary: s c)
  case Nil
  then show ?case by (intro exI [of _ c]) (auto simp: wrote_def)
next
  case (Cons pg pages)
  obtain pgno data where pg: "pg = (pgno, data)" by (cases pg)
  let ?d = "patch_header pgno data (lf_rand s (lf_tick s))" and ?off = "unat (pgno - 1) * ps"
  obtain r1 s1 where w: "f_WriteAt f ?d ?off s = (r1, s1)" by (metis prod.exhaust)
  obtain c1 k where c1: "lf_files s1 = (lf_files s)(f \<mapsto> c1)" "c1 = write_at ?off (take k ?d) c \<or> c1 = c" "r1 = None \<longrightarrow> c1 = write_at ?off ?d c"
    using WriteAt_files [OF w Cons.prems(2)] by blast
  have ok: "page_ok ps h (pgno, data)" "\<forall>pg\<in>set pages. page_ok ps h pg" using Cons.prems(3) pg by auto
  have m1: "mixes h c c1" using c1(2) write_page(1) [OF ok(1)] by auto
  show ?case
  proof (cases r1)
    case (Some e)
    then have "r \<noteq> None" "s' = s1" using Cons.prems(1) w pg by (auto simp: Let_def)
    then show ?thesis using c1(1) m1 by blast
  next
    case None
    then have "apply_pages f ps pages end_err s1 = (r, s')" using Cons.prems(1) w pg by (simp add: Let_def)
    then obtain c' where c': "lf_files s' = (lf_files s1)(f \<mapsto> c')" "mixes h c1 c'" "r = None \<longrightarrow> end_err = None \<and> wrote ps pages h c1 c'"
      using Cons.IH [of s1 c1] c1(1) ok(2) by (metis fun_upd_same)
    have "r = None \<longrightarrow> end_err = None \<and> wrote ps (pg # pages) h c c'"
      using c'(3) write_page(2) [OF ok(1), of c "lf_rand s (lf_tick s)"] c1(3) None wrote_Cons [of ps pg h c c1 pages c'] pg by auto
    moreover have "lf_files s' = (lf_files s)(f \<mapsto> c')" using c'(1) c1(1) by simp
    ultimately show ?thesis using mixes_trans [OF m1 c'(2)] by blast
  qed
qed

text \<open>A file for \<open>a\<close> to \<open>b\<close> is applied when \<open>a\<close> is not behind the TXID after \<open>u\<close> and \<open>b\<close> is above \<open>u\<close>.\<close>

lemma tracks_part:
  assumes "tracks hist u m c" and "mixes (hist b) c c'" and "u \<le> b"
  shows "\<forall>i. i \<notin> patched \<longrightarrow> bstable hist u (max u (max m b)) i \<longrightarrow> i < length c' \<and> c' ! i = hist (max u (max m b)) ! i"
proof (intro allI impI)
  fix i assume i: "i \<notin> patched" "bstable hist u (max u (max m b)) i"
  have "i < length c \<and> c ! i = hist (max u (max m b)) ! i"
    using tracks_mono [OF assms(1), of "max m b"] i by (auto simp: tracks_def)
  moreover have "hist b ! i = hist (max u (max m b)) ! i" using bstable_nth [OF i(2), of b] assms(3) by simp
  ultimately show "i < length c' \<and> c' ! i = hist (max u (max m b)) ! i" using assms(2) i(1) by (auto simp: mixes_def)
qed

lemma tracks_part_cut:
  assumes "tracks hist u m c" and "mixes (hist b) c c'" and "u < b" and "c'' = c' \<or> c'' = truncate_to (length (hist b)) c'"
  shows "tracks hist u (max m b) c''"
proof -
  have "i < length c'' \<and> c'' ! i = hist (max u (max m b)) ! i"
    if i: "i \<notin> patched" "bstable hist u (max u (max m b)) i" for i
  proof -
    have "i < length c'" "c' ! i = hist (max u (max m b)) ! i" using tracks_part [OF assms(1,2)] assms(3) i by auto
    moreover have "i < length (hist b)" using bstable_nth [OF i(2), of b] assms(3) by simp
    ultimately show ?thesis using assms(4) by (auto simp: nth_truncate_to)
  qed
  then show ?thesis using assms(3) by (simp add: tracks_def)
qed

lemma tracks_full:
  assumes "tracks hist u m c" and "wrote ps pages (hist b) c c'" and "delta hist ps commit pages a b" and "a - 1 \<le> u" and "u < b"
  shows "tracks hist b m (truncate_to (length (hist b)) c')"
proof -
  let ?M = "max b m"
  have "i < length (hist b) \<and> truncate_to (length (hist b)) c' ! i = hist ?M ! i"
    if i: "i \<notin> patched" "bstable hist b ?M i" for i
  proof -
    have l: "i < length (hist b)" "hist b ! i = hist ?M ! i" using bstable_nth [OF i(2), of b] by simp_all
    have "i < length c' \<and> c' ! i = hist ?M ! i"
    proof (cases "\<exists>pg\<in>set pages. page_of ps (fst pg) i")
      case True
      then show ?thesis using assms(2) i(1) l by (auto simp: wrote_def)
    next
      case False
      then have "bstable hist (a - 1) b i" using assms(3) l(1) by (auto simp: delta_def)
      then have "bstable hist u b i" by (rule bstable_sub) (use assms(4,5) in auto)
      then have "bstable hist u ?M i" using i(2) assms(5) by (auto intro: bstable_join)
      then have "i < length c \<and> c ! i = hist ?M ! i"
        using tracks_mono [OF assms(1), of ?M] i(1) assms(5) by (auto simp: tracks_def)
      then show ?thesis using assms(2) i(1) False by (auto simp: wrote_def)
    qed
    then show ?thesis using l(1) by (simp add: nth_truncate_to)
  qed
  then show ?thesis by (simp add: tracks_def)
qed

lemma applyLTXFile_effect:
  assumes "applyLTXFile dec cd r client st f info ps s = (e, s')" and "lf_files s f = Some c" and "tracks hist u m c"
    and "\<And>rc. rp_OpenLTXFile cd r client st (FLevel info) (MinTXID info) (MaxTXID info) 0 0 = Inr rc \<Longrightarrow>
             delivers hist ps (dec ps rc) (MinTXID info) (MaxTXID info)"
    and "MinTXID info - 1 \<le> u" and "u < MaxTXID info"
  shows "\<exists>c'. lf_files s' = (lf_files s)(f \<mapsto> c') \<and> tracks hist u (max m (MaxTXID info)) c' \<and>
              (e = None \<longrightarrow> tracks hist (MaxTXID info) m c')"
proof (cases "rp_OpenLTXFile cd r client st (FLevel info) (MinTXID info) (MaxTXID info) 0 0")
  case (Inl err)
  then show ?thesis using assms(1-3) tracks_mono [OF assms(3)] by (auto simp: applyLTXFile_def intro!: exI [of _ c])
next
  case (Inr rc)
  let ?d = "dec ps rc" and ?b = "MaxTXID info"
  have keep: ?thesis if "e \<noteq> None" "lf_files s' = lf_files s"
    using that assms(2) tracks_mono [OF assms(3), of "max m ?b"] by (auto intro!: exI [of _ c])
  show ?thesis
  proof (cases "ld_header ?d = None \<and> fst (sys s) = None")
    case False
    then show ?thesis using assms(1) Inr
      by (intro keep) (auto simp: applyLTXFile_def Let_def sys_def split: option.splits)
  next
    case True
    obtain s1 where s1: "sys s = (None, s1)" "lf_files s1 = lf_files s" using True by (cases "sys s") (auto simp: sys_def)
    obtain pages where pages: "delta hist ps (ld_commit ?d) pages (MinTXID info) ?b" "prefix (ld_pages ?d) pages"
        "ld_err ?d = None \<longrightarrow> ld_pages ?d = pages"
      using assms(4) [OF Inr] True by (auto simp: delivers_def)
    have ok: "\<forall>pg\<in>set (ld_pages ?d). page_ok ps (hist ?b) pg" "ld_commit ?d > 0" "unat (ld_commit ?d) * ps = length (hist ?b)"
      using pages(1,2) set_mono_prefix [OF pages(2)] by (auto simp: delta_def)
    obtain e2 s2 where a2: "apply_pages f ps (ld_pages ?d) (ld_err ?d) s1 = (e2, s2)" by (metis prod.exhaust)
    obtain c2 where c2: "lf_files s2 = (lf_files s)(f \<mapsto> c2)" "mixes (hist ?b) c c2"
        "e2 = None \<longrightarrow> ld_err ?d = None \<and> wrote ps (ld_pages ?d) (hist ?b) c c2"
      using apply_pages_effect [OF a2 _ ok(1), of c] assms(2) s1(2) by auto
    obtain e3 s3 where t3: "f_Truncate f (length (hist ?b)) s2 = (e3, s3)" by (metis prod.exhaust)
    note f3 = Truncate_files [OF t3, of c2]
    define c3 where "c3 = truncate_to (length (hist ?b)) c2"
    note part = tracks_part_cut [OF assms(3) c2(2) assms(6)]
    show ?thesis
    proof (cases "e2 = None \<and> e3 = None")
      case False
      then have "e \<noteq> None \<and> lf_files s' = (lf_files s)(f \<mapsto> c2)"
        using assms(1) Inr True s1 a2 t3 ok(2,3) f3 c2(1) by (auto simp: applyLTXFile_def Let_def split: option.splits)
      then show ?thesis using part [of c2] by blast
    next
      case e23: True
      then have "lf_files s3 = (lf_files s)(f \<mapsto> c3)" using f3 c2(1) by (simp add: c3_def)
      moreover have "lf_files s' = lf_files s3"
        using assms(1) Inr True s1 a2 t3 ok(2,3) e23 by (auto simp: applyLTXFile_def Let_def Sync_files split: option.splits)
      moreover have "tracks hist ?b m c3"
        unfolding c3_def by (rule tracks_full [OF assms(3) _ pages(1) assms(5,6)]) (use c2(3) e23 pages(3) in auto)
      ultimately show ?thesis using part [of c3] by (auto simp: c3_def)
    qed
  qed
qed

subsection \<open>The loops\<close>

text \<open>What a function of follow mode promises that starts at \<open>u\<close> and results in the error \<open>e\<close> and the TXID \<open>u'\<close>; \<open>B\<close> bounds
  the TXIDs of the stored files.\<close>

definition fspec :: "(txid \<Rightarrow> byte list) \<Rightarrow> string \<Rightarrow> txid \<Rightarrow> txid \<Rightarrow> txid \<Rightarrow> lfs \<Rightarrow> goerr option \<Rightarrow> txid \<Rightarrow> lfs \<Rightarrow> bool" where
  "fspec hist f m B u s e u' s' \<longleftrightarrow>
     u \<le> u' \<and> u' \<le> max u B \<and>
     (\<exists>c. lf_files s' = (lf_files s)(f \<mapsto> c) \<and> tracks hist u (max m B) c \<and> (e = None \<longrightarrow> tracks hist u' m c))"

definition tracked :: "(txid \<Rightarrow> byte list) \<Rightarrow> string \<Rightarrow> txid \<Rightarrow> txid \<Rightarrow> lfs \<Rightarrow> bool" where
  "tracked hist f m u s \<longleftrightarrow> (\<exists>c. lf_files s f = Some c \<and> tracks hist u m c)"

lemma fspec_refl: "tracked hist f m u s \<Longrightarrow> fspec hist f m B u s e u s"
  unfolding fspec_def tracked_def using tracks_mono [of hist u m _ "max m B"] by (metis fun_upd_triv max.cobounded1 order.refl)

lemma fspec_err: "fspec hist f m B u s None u' s' \<Longrightarrow> fspec hist f m B u s e u' s'"
  by (auto simp: fspec_def)

lemma fspec_tracked: "fspec hist f m B u s None u' s' \<Longrightarrow> tracked hist f m u' s'"
  by (auto simp: fspec_def tracked_def)

lemma fspec_back: "fspec hist f m B u s e u' s' \<Longrightarrow> e \<noteq> None \<Longrightarrow> fspec hist f m B u s e u s'"
  by (auto simp: fspec_def)

lemma fspec_trans:
  assumes "fspec hist f m B u s None u1 s1" and "fspec hist f m B u1 s1 e u2 s2"
  shows "fspec hist f m B u s e u2 s2"
proof -
  obtain c1 where 1: "u \<le> u1" "u1 \<le> max u B" "lf_files s1 = (lf_files s)(f \<mapsto> c1)" using assms(1) by (auto simp: fspec_def)
  obtain c2 where 2: "u1 \<le> u2" "u2 \<le> max u1 B" "lf_files s2 = (lf_files s1)(f \<mapsto> c2)" "tracks hist u1 (max m B) c2" "e = None \<longrightarrow> tracks hist u2 m c2"
    using assms(2) by (auto simp: fspec_def)
  have "tracks hist u (max m B) c2" by (rule tracks_back [OF 2(4) 1(1)]) (use 1 in auto)
  then show ?thesis using 1 2 by (auto simp: fspec_def)
qed

locale follow_store = replica_client "fc_client x" files okay
  for x :: "'s follow_ctx" and files :: "'s \<Rightarrow> objects" and okay :: "'s \<Rightarrow> bool" +
  fixes hist :: "txid \<Rightarrow> byte list" and good :: "'s \<Rightarrow> bool"
  assumes good_okay: "good st \<Longrightarrow> okay st"
    and faithful: "good st \<Longrightarrow> txid_ok a \<Longrightarrow> txid_ok b \<Longrightarrow> rp_OpenLTXFile (fc_codec x) (fc_replica x) (fc_client x) st level a b 0 0 = Inr rc \<Longrightarrow>
      delivers hist (fc_pageSize x) (fc_dec x (fc_pageSize x) rc) a b"
begin

lemma apply_spec:
  assumes "good st" "\<And>k v. files st k = Some v \<Longrightarrow> snd (snd k) \<le> B" "tracked hist (fc_path x) m u s"
    and "LTXFiles (fc_client x) st level seek um = Inr it" "info \<in> set (iter_items it)"
    and "MinTXID info \<le> next_txid u" "u < MaxTXID info" and "fc_apply x st info s = (e, s')"
  shows "fspec hist (fc_path x) m B u s e (if e = None then MaxTXID info else u) s'"
proof -
  note it = list_items_any [OF good_okay [OF assms(1)] assms(4,5)]
  have B: "MaxTXID info \<le> B" using it assms(2) [of "key info"] by auto
  have "u < 2 ^ 64 - 1" using it assms(7) by linarith
  then have a: "MinTXID info - 1 \<le> u" using assms(6) next_txid_eq [of u] by simp
  obtain c where c: "lf_files s (fc_path x) = Some c" "tracks hist u m c" using assms(3) by (auto simp: tracked_def)
  obtain c' where c': "lf_files s' = (lf_files s)(fc_path x \<mapsto> c')" "tracks hist u (max m (MaxTXID info)) c'" "e = None \<longrightarrow> tracks hist (MaxTXID info) m c'"
    using applyLTXFile_effect [OF assms(8) [unfolded fc_apply_def] c faithful [OF assms(1), of _ _ "FLevel info"] a assms(7)] it by auto
  have "tracks hist u (max m B) c'" by (rule tracks_mono [OF c'(2)]) (use B in auto)
  then show ?thesis using c' B assms(7) by (auto simp: fspec_def)
qed

lemma fill_items_spec:
  assumes "good st" "\<And>k v. files st k = Some v \<Longrightarrow> snd (snd k) \<le> B" "LTXFiles (fc_client x) st level seek um = Inr it"
    and "tracked hist (fc_path x) m u s" "set infos \<subseteq> set (iter_items it)" "fill_items x st it gap infos u s = (ro, u', s')"
  shows "fspec hist (fc_path x) m B u s (case ro of None \<Rightarrow> None | Some e \<Rightarrow> e) u' s'"
  using assms(4-6)
proof (induction infos arbitrary: u s)
  case (Cons info infos)
  consider "MinTXID info > next_txid u" | "MinTXID info \<le> next_txid u" "MaxTXID info \<le> u" | "MinTXID info \<le> next_txid u" "u < MaxTXID info" by linarith
  then show ?case
  proof cases
    case 3
    obtain e s1 where a: "fc_apply x st info s = (e, s1)" by (metis prod.exhaust)
    note sp = apply_spec [OF assms(1,2) Cons.prems(1) assms(3) _ 3 a]
    show ?thesis
    proof (cases e)
      case (Some err)
      then have "u' = u" "s' = s1" "ro \<noteq> None" "ro \<noteq> Some None" using Cons.prems(3) 3 a by (auto simp: close_iter_def split: option.splits)
      then show ?thesis using sp Some Cons.prems(2) by (auto simp: fspec_def split: option.splits)
    next
      case None
      then have sp': "fspec hist (fc_path x) m B u s None (MaxTXID info) s1" using sp Cons.prems(2) by simp
      show ?thesis
      proof (cases "next_txid (MaxTXID info) \<ge> gap")
        case True
        then have "u' = MaxTXID info" "s' = s1" using Cons.prems(3) 3 a None by auto
        then show ?thesis using fspec_err [OF sp'] by simp
      next
        case False
        then have "fill_items x st it gap infos (MaxTXID info) s1 = (ro, u', s')" using Cons.prems(3) 3 a None by simp
        then show ?thesis using fspec_trans [OF sp' Cons.IH [OF fspec_tracked [OF sp']]] Cons.prems(2) by simp
      qed
    qed
  qed (use Cons fspec_refl in auto)
qed (use fspec_refl in auto)

lemma fill_levels_spec:
  assumes "good st" "\<And>k v. files st k = Some v \<Longrightarrow> snd (snd k) \<le> B"
    and "tracked hist (fc_path x) m u s" "fill_levels x st u gap levels u s = (e, u', s')"
  shows "fspec hist (fc_path x) m B u s e u' s'"
  using assms(3,4)
proof (induction levels arbitrary: s)
  case (Cons level levels)
  show ?case
  proof (cases "LTXFiles (fc_client x) st level 0 False")
    case (Inl err)
    then show ?thesis using Cons.prems fspec_refl by auto
  next
    case (Inr it)
    obtain ro u1 s1 where f: "fill_items x st it gap (iter_items it) u s = (ro, u1, s1)" by (metis prod.exhaust)
    note sp = fill_items_spec [OF assms(1,2) Inr Cons.prems(1) order.refl f]
    show ?thesis
    proof (cases ro)
      case (Some r)
      then show ?thesis using sp Cons.prems(2) Inr f by simp
    next
      case None
      then have sp': "fspec hist (fc_path x) m B u s None u1 s1" using sp by simp
      show ?thesis
      proof (cases "iter_err it = None \<and> \<not> u1 > u")
        case True
        then have u1: "u1 = u" using sp' by (simp add: fspec_def)
        have "fill_levels x st u gap levels u s1 = (e, u', s')" using True Cons.prems(2) Inr f None u1 by simp
        then show ?thesis using fspec_trans [OF sp' [unfolded u1] Cons.IH] fspec_tracked [OF sp'] u1 by simp
      next
        case False
        then have "u' = u1 \<and> s' = s1" using Cons.prems(2) Inr f None by (auto split: option.splits if_splits)
        then show ?thesis using fspec_err [OF sp'] by simp
      qed
    qed
  qed
qed (use fspec_refl in auto)

end

context follow_store
begin

lemma level0_items_spec:
  assumes "good st" "\<And>k v. files st k = Some v \<Longrightarrow> snd (snd k) \<le> B" "LTXFiles (fc_client x) st level seek um = Inr it"
    and "tracked hist (fc_path x) m u s" "set infos \<subseteq> set (iter_items it)" "level0_items x st it infos u s = (ro, u', s')"
  shows "fspec hist (fc_path x) m B u s (case ro of None \<Rightarrow> None | Some e \<Rightarrow> e) u' s'"
  using assms(4-6)
proof (induction infos arbitrary: u s)
  case (Cons info infos)
  obtain e1 u1 s1 where fill: "(if MinTXID info > next_txid u then fillFollowGap x st u (MinTXID info) s else (None, u, s)) = (e1, u1, s1)"
    by (metis prod.exhaust)
  have sp1: "fspec hist (fc_path x) m B u s e1 u1 s1"
    using fill fill_levels_spec [OF assms(1,2) Cons.prems(1)] fspec_refl [OF Cons.prems(1)] by (auto simp: fillFollowGap_def split: if_splits)
  show ?case
  proof (cases e1)
    case (Some err)
    then have "u' = u" "s' = s1" "ro \<noteq> None" "ro \<noteq> Some None" using Cons.prems(3) fill by (auto simp: close_iter_def split: option.splits)
    then show ?thesis using sp1 Some by (auto simp: fspec_def split: option.splits)
  next
    case None
    then have sp1': "fspec hist (fc_path x) m B u s None u1 s1" using sp1 by simp
    note tr1 = fspec_tracked [OF sp1']
    have run: "(if MaxTXID info \<le> u1 then level0_items x st it infos u1 s1
          else if MinTXID info > next_txid u1 then (Some (close_iter ''close level 0 ltx iterator'' it None), u1, s1)
          else case fc_apply x st info s1 of
            (Some err, s) \<Rightarrow> (Some (close_iter ''close level 0 ltx iterator'' it (Some (Wrapf ''apply ltx file'' err))), u1, s)
          | (None, s) \<Rightarrow> level0_items x st it infos (MaxTXID info) s) = (ro, u', s')"
      using Cons.prems(3) fill None by simp
    consider "MaxTXID info \<le> u1" | "u1 < MaxTXID info" "MinTXID info > next_txid u1" | "u1 < MaxTXID info" "MinTXID info \<le> next_txid u1"
      by linarith
    then show ?thesis
    proof cases
      case 1
      then show ?thesis using fspec_trans [OF sp1' Cons.IH [OF tr1]] run Cons.prems(2) by simp
    next
      case 2
      then show ?thesis using fspec_err [OF sp1'] run by auto
    next
      case 3
      obtain e2 s2 where a: "fc_apply x st info s1 = (e2, s2)" by (metis prod.exhaust)
      have sp2: "fspec hist (fc_path x) m B u1 s1 e2 (if e2 = None then MaxTXID info else u1) s2"
        using apply_spec [OF assms(1,2) tr1 assms(3) _ 3(2,1) a] Cons.prems(2) by simp
      show ?thesis
      proof (cases e2)
        case (Some err)
        then have "u' = u1" "s' = s2" "ro \<noteq> None" "ro \<noteq> Some None" using run 3 a by (auto simp: close_iter_def split: option.splits)
        then show ?thesis using fspec_trans [OF sp1' sp2] Some by (auto simp: fspec_def split: option.splits)
      next
        case None
        then have sp2': "fspec hist (fc_path x) m B u s None (MaxTXID info) s2" using fspec_trans [OF sp1' sp2] by simp
        have "level0_items x st it infos (MaxTXID info) s2 = (ro, u', s')" using run 3 a None by simp
        then show ?thesis using fspec_trans [OF sp2' Cons.IH [OF fspec_tracked [OF sp2']]] Cons.prems(2) by simp
      qed
    qed
  qed
qed (use fspec_refl in auto)

lemma applyNew_spec:
  assumes "good st" "\<And>k v. files st k = Some v \<Longrightarrow> snd (snd k) \<le> B" "tracked hist (fc_path x) m u s"
    and "applyNewLTXFiles x st u s = (e, u', s')"
  shows "fspec hist (fc_path x) m B u s e u' s'"
proof (cases "LTXFiles (fc_client x) st 0 (next_txid u) False")
  case (Inl err)
  then show ?thesis using assms(4) fspec_refl [OF assms(3)] by (auto simp: applyNewLTXFiles_def)
next
  case (Inr it)
  obtain ro u1 s1 where f: "level0_items x st it (iter_items it) u s = (ro, u1, s1)" by (metis prod.exhaust)
  note sp = level0_items_spec [OF assms(1,2) Inr assms(3) order.refl f]
  show ?thesis
  proof (cases "ro = None \<and> iter_err it = None \<and> iter_items it = []")
    case False
    then have "u' = u1 \<and> s' = s1 \<and> (ro = None \<or> ro = Some e)"
      using assms(4) Inr f by (auto simp: applyNewLTXFiles_def split: option.splits if_splits)
    then show ?thesis using sp fspec_err by auto
  next
    case True
    then have "u1 = u" "s1 = s" using f by auto
    then obtain e2 u2 where f2: "fill_levels x st u (next_txid u) [1..SnapshotLevel - 1] u s = (e2, u2, s')"
        "e = e2" "u' = (if e2 = None then u2 else u)"
      using assms(4) Inr f True by (auto simp: applyNewLTXFiles_def fillFollowGap_def split: option.splits prod.splits)
    have "fspec hist (fc_path x) m B u s e2 u2 s'" by (rule fill_levels_spec [OF assms(1) _ assms(3) f2(1)]) (use assms(2) in blast)
    then show ?thesis using f2(2,3) fspec_back by auto
  qed
qed

end

subsection \<open>The sidecar\<close>

definition digit :: "byte \<Rightarrow> bool" where
  "digit b \<longleftrightarrow> 48 \<le> b \<and> b \<le> 102"

lemma utf8_spaces_ends: "\<forall>sp\<in>set utf8_spaces. sp \<noteq> [] \<and> \<not> digit (hd sp) \<and> \<not> digit (last sp)"
  by code_simp

lemma trim_left_stop: "\<forall>sp\<in>set sps. sp \<noteq> [] \<and> \<not> digit (hd sp) \<Longrightarrow> digit b \<Longrightarrow> trim_left sps n (b # bs) = b # bs"
proof (cases n)
  case (Suc k)
  assume a: "\<forall>sp\<in>set sps. sp \<noteq> [] \<and> \<not> digit (hd sp)" "digit b"
  have "take (length sp) (b # bs) \<noteq> sp" if sp: "sp \<in> set sps" for sp
  proof
    assume t: "take (length sp) (b # bs) = sp"
    then have "hd sp = b" using a(1) sp by (cases sp) auto
    then show False using a sp by auto
  qed
  then have "List.find (\<lambda>sp. take (length sp) (b # bs) = sp) sps = None" by (auto simp: find_None_iff)
  then show ?thesis using Suc by simp
qed simp

lemma trim_left_digit: "digit b \<Longrightarrow> trim_left utf8_spaces n (b # bs) = b # bs"
  using utf8_spaces_ends by (intro trim_left_stop) auto

lemma trim_right_digit: "digit b \<Longrightarrow> trim_left (map rev utf8_spaces) n (b # bs) = b # bs"
  using utf8_spaces_ends by (intro trim_left_stop) (auto simp: hd_rev)

lemma TrimSpace_line:
  assumes "bs \<noteq> []" and "\<forall>b\<in>set bs. digit b"
  shows "TrimSpace (bs @ [10]) = bs"
proof -
  obtain b cs where b: "bs = b # cs" using assms(1) by (cases bs) auto
  obtain l ds where l: "rev bs = l # ds" using assms(1) by (cases "rev bs") auto
  have lr: "digit l" using assms(2) l by (metis list.set_intros(1) set_rev)
  have r: "trim_left (map rev utf8_spaces) (Suc n) (10 # rev bs) = rev bs" for n
    using trim_right_digit [OF lr, of n ds] l by (simp add: utf8_spaces_def)
  have "trim_left utf8_spaces (length (bs @ [10])) (bs @ [10]) = bs @ [10]"
    using trim_left_digit [of b "length (bs @ [10])" "cs @ [10]"] assms(2) b by simp
  then show ?thesis using r [of "length bs"] by (simp add: TrimSpace_def)
qed

lemma sidecar_paths [simp]:
  "TXIDPath f \<noteq> f" "TXIDPath f @ ''.tmp'' \<noteq> f" "TXIDPath f @ ''.tmp'' \<noteq> TXIDPath f" "f \<noteq> TXIDPath f" "f \<noteq> TXIDPath f @ ''.tmp''"
  by (auto simp: TXIDPath_def)

lemma txid_deferred_files:
  assumes "txid_deferred tmp (r1, s1) = (r, s')"
  shows "r = r1 \<and> (\<forall>p. p \<noteq> tmp \<longrightarrow> lf_files s' p = lf_files s1 p)"
proof -
  obtain e2 s2 where r: "lf_Remove tmp s1 = (e2, s2)" by (metis prod.exhaust)
  obtain e3 s3 where c: "f_Close tmp s2 = (e3, s3)" by (metis prod.exhaust)
  show ?thesis using assms Remove_files [OF r] Close_files [OF c] by (simp add: txid_deferred_def r c split: if_splits)
qed

text \<open>The sidecar is old or new, whatever fails; other files than the temporary one do not change.\<close>

lemma WriteTXIDFile_files:
  assumes "WriteTXIDFile tt out txid s = (r, s')"
  shows "(\<forall>p. p \<noteq> TXIDPath out \<longrightarrow> p \<noteq> TXIDPath out @ ''.tmp'' \<longrightarrow> lf_files s' p = lf_files s p) \<and>
         (lf_files s' (TXIDPath out) = lf_files s (TXIDPath out) \<or> lf_files s' (TXIDPath out) = Some (txid_String tt txid @ [10])) \<and>
         (r = None \<longrightarrow> lf_files s' (TXIDPath out) = Some (txid_String tt txid @ [10]))"
proof -
  let ?p = "TXIDPath out" and ?line = "txid_String tt txid @ [10]"
  let ?tmp = "?p @ ''.tmp''"
  have ne: "?tmp \<noteq> ?p" by simp
  obtain e1 s1 where c1: "lf_Create ?tmp s = (e1, s1)" by (metis prod.exhaust)
  obtain e2 s2 where c2: "f_WriteAt ?tmp ?line 0 s1 = (e2, s2)" by (metis prod.exhaust)
  obtain e3 s3 where c3: "f_Sync ?tmp s2 = (e3, s3)" by (metis prod.exhaust)
  obtain e4 s4 where c4: "f_Close ?tmp s3 = (e4, s4)" by (metis prod.exhaust)
  obtain e5 s5 where c5: "lf_Rename ?tmp ?p s4 = (e5, s5)" by (metis prod.exhaust)
  show ?thesis
  proof (cases e1)
    case (Some err)
    then show ?thesis using assms c1 Create_files [OF c1] by (auto simp: WriteTXIDFile_def Let_def)
  next
    case None
    obtain r0 s0 where b: "txid_commit ?line ?tmp ?p s1 = (r0, s0)" by (metis prod.exhaust)
    have r0: "(r, s') = txid_deferred ?tmp (r0, s0)" using assms c1 None b by (simp add: WriteTXIDFile_def Let_def)
    have cases: "r0 \<noteq> None \<and> (s0 = s2 \<or> s0 = s3 \<or> s0 = s4 \<or> s0 = s5 \<and> e5 \<noteq> None) \<or>
              lf_files s0 = lf_files s5 \<and> e2 = None \<and> e3 = None \<and> e4 = None \<and> e5 = None"
      using b by (cases e2; cases e3; cases e4; cases e5) (auto simp: txid_commit_def c2 c3 c4 c5 sys_def split: option.splits)
    have f1: "lf_files s1 = (lf_files s)(?tmp \<mapsto> [])" using Create_files [OF c1] None by simp
    obtain part where f2: "lf_files s2 = (lf_files s)(?tmp \<mapsto> part)" "e2 = None \<longrightarrow> part = ?line"
      using WriteAt_files [OF c2, of "[]"] f1 by (auto simp: write_at_def)
    have f34: "lf_files s3 = lf_files s2" "lf_files s4 = lf_files s2" using Sync_files [OF c3] Close_files [OF c4] by simp_all
    note f5 = Rename_files [OF c5]
    note d = txid_deferred_files [OF r0 [symmetric]]
    show ?thesis using cases
    proof
      assume a: "r0 \<noteq> None \<and> (s0 = s2 \<or> s0 = s3 \<or> s0 = s4 \<or> s0 = s5 \<and> e5 \<noteq> None)"
      then have "lf_files s0 = lf_files s2" using f34 f5 by auto
      then show ?thesis using a d f2(1) ne by auto
    next
      assume "lf_files s0 = lf_files s5 \<and> e2 = None \<and> e3 = None \<and> e4 = None \<and> e5 = None"
      then have "lf_files s0 = (lf_files s)(?tmp := None, ?p \<mapsto> ?line)" using f5 f34 f2 by simp
      then show ?thesis using d ne by auto
    qed
  qed
qed



text \<open>What the program relies on in the LTX library: a TXID is printed in hexadecimal digits and parsed again.\<close>

locale txid_codec =
  fixes tt :: txid_text
  assumes parse: "txid_ok t \<Longrightarrow> ParseTXID tt (txid_String tt t) = Inr t"
    and digits: "txid_ok t \<Longrightarrow> txid_String tt t \<noteq> [] \<and> (\<forall>b\<in>set (txid_String tt t). digit b)"
begin

lemma TrimSpace_txid: "txid_ok t \<Longrightarrow> TrimSpace (txid_String tt t @ [10]) = txid_String tt t"
  using digits [of t] by (simp add: TrimSpace_line)

text \<open>A missing file reads as 0. An existing one reads as the TXID in it, or the read fails; a failing call of the
  operating system must not claim that the file does not exist.\<close>

lemma sidecar_read:
  assumes "txid_ok u" "lf_files s (TXIDPath out) = Some (txid_String tt u @ [10])" "\<forall>k e. lf_fault s k = Some e \<longrightarrow> \<not> os_IsNotExist e"
    and "ReadTXIDFile tt out s = (Inr v, s')"
  shows "v = u \<and> lf_files s' = lf_files s"
  using assms TrimSpace_txid [OF assms(1)] parse [OF assms(1)]
  by (auto simp: ReadTXIDFile_def lf_ReadFile_def sys_def split: option.splits if_splits)

end

subsection \<open>Runs with failures and restarts\<close>

text \<open>
  The states follow mode reaches from TXID \<open>u0\<close> and the files \<open>s0\<close>. In a poll any call may fail. A process that returns or
  is killed in a poll is started again with the TXID of the sidecar. \<open>F\<close> are the last TXIDs of the files that were
  stored when a poll did not succeed.
\<close>

definition stored_ends :: "('s \<Rightarrow> objects) \<Rightarrow> 's \<Rightarrow> txid set" where
  "stored_ends files st = {b. \<exists>level a v. files st (level, a, b) = Some v}"

inductive freach ::
  "txid_text \<Rightarrow> 's follow_ctx \<Rightarrow> ('s \<Rightarrow> objects) \<Rightarrow> ('s \<Rightarrow> bool) \<Rightarrow> txid \<Rightarrow> lfs \<Rightarrow> txid set \<Rightarrow> txid \<Rightarrow> lfs \<Rightarrow> bool"
  for tt x files good u0 s0 where
  start: "freach tt x files good u0 s0 {} u0 s0"
| poll: "freach tt x files good u0 s0 F u s \<Longrightarrow> good st \<Longrightarrow>
    follow_poll tt x st ctx_err (u, n, s) = (None, u', n', s') \<Longrightarrow>
    F' = (if fst (applyNewLTXFiles x st u s) = None then F else F \<union> stored_ends files st) \<Longrightarrow>
    freach tt x files good u0 s0 F' u' s'"
| restart: "freach tt x files good u0 s0 F u s \<Longrightarrow> good st \<Longrightarrow>
    follow_poll tt x st ctx_err (u, n, s) = (ro, u', n', s') \<Longrightarrow>
    lf_files s1 = lf_files s' \<Longrightarrow> (\<forall>k e. lf_fault s1 k = Some e \<longrightarrow> \<not> os_IsNotExist e) \<Longrightarrow>
    ReadTXIDFile tt (fc_path x) s1 = (Inr v, s2) \<Longrightarrow>
    freach tt x files good u0 s0 (F \<union> stored_ends files st) v s2"

lemma follow_poll_parts:
  assumes "follow_poll tt x st ctx_err (u, n, s) = (ro, u', n', s')" and "applyNewLTXFiles x st u s = (e, u1, s1)"
  shows "lf_files s' (fc_path x) = lf_files s1 (fc_path x)"
    and "lf_files s' (TXIDPath (fc_path x)) = lf_files s1 (TXIDPath (fc_path x)) \<or>
         e = None \<and> lf_files s' (TXIDPath (fc_path x)) = Some (txid_String tt u1 @ [10])"
    and "ro = None \<Longrightarrow> u' = (if e = None \<and> u < u1 then u1 else u) \<and>
         lf_files s' (TXIDPath (fc_path x)) =
           (if e = None \<and> u < u1 then Some (txid_String tt u1 @ [10]) else lf_files s1 (TXIDPath (fc_path x)))"
proof -
  obtain e2 s2 where w: "WriteTXIDFile tt (fc_path x) u1 s1 = (e2, s2)" by (metis prod.exhaust)
  note f = WriteTXIDFile_files [OF w]
  consider (same) "s' = s1" "\<not> (e = None \<and> u < u1)" "u' = u" | (wrote) "s' = s2" "e = None" "u < u1" "ro = None \<longrightarrow> u' = u1 \<and> e2 = None"
    using assms w by (auto simp: follow_poll_def split: option.splits if_splits)
  then show "lf_files s' (fc_path x) = lf_files s1 (fc_path x)"
    and "lf_files s' (TXIDPath (fc_path x)) = lf_files s1 (TXIDPath (fc_path x)) \<or>
         e = None \<and> lf_files s' (TXIDPath (fc_path x)) = Some (txid_String tt u1 @ [10])"
    and "ro = None \<Longrightarrow> u' = (if e = None \<and> u < u1 then u1 else u) \<and>
         lf_files s' (TXIDPath (fc_path x)) =
           (if e = None \<and> u < u1 then Some (txid_String tt u1 @ [10]) else lf_files s1 (TXIDPath (fc_path x)))"
    using f by (cases, simp_all)+
qed

lemma tracked_cong: "lf_files s' f = lf_files s f \<Longrightarrow> tracked hist f m u s' = tracked hist f m u s"
  by (simp add: tracked_def)

context follow_store
begin

lemma stored_ends_ok: "good st \<Longrightarrow> b \<in> stored_ends files st \<Longrightarrow> b \<le> 2 ^ 64 - 1"
  using files_ok [OF good_okay] by (fastforce simp: stored_ends_def)

lemma poll_effect:
  assumes "good st" "txid_ok u" "tracked hist (fc_path x) m u s" "applyNewLTXFiles x st u s = (e, u1, s1)"
  shows "u \<le> u1 \<and> txid_ok u1 \<and> lf_files s1 (TXIDPath (fc_path x)) = lf_files s (TXIDPath (fc_path x))"
    and "e = None \<Longrightarrow> tracked hist (fc_path x) m u1 s1"
    and "\<forall>v\<in>stored_ends files st. v \<le> m \<Longrightarrow> tracked hist (fc_path x) m u s1"
proof -
  have B: "fspec hist (fc_path x) m B u s e u1 s1" if "\<forall>v\<in>stored_ends files st. v \<le> B" for B
    by (rule applyNew_spec [OF assms(1) _ assms(3,4)]) (use that in \<open>fastforce simp: stored_ends_def\<close>)
  have "fspec hist (fc_path x) m (2 ^ 64 - 1) u s e u1 s1" by (rule B) (use stored_ends_ok [OF assms(1)] in blast)
  then show "u \<le> u1 \<and> txid_ok u1 \<and> lf_files s1 (TXIDPath (fc_path x)) = lf_files s (TXIDPath (fc_path x))"
    and "e = None \<Longrightarrow> tracked hist (fc_path x) m u1 s1"
    using assms(2) by (auto simp: fspec_def tracked_def)
  show "tracked hist (fc_path x) m u s1" if "\<forall>v\<in>stored_ends files st. v \<le> m"
    using B [OF that] by (auto simp: fspec_def tracked_def)
qed

lemma poll_inv:
  assumes "good st" "txid_ok u" "tracked hist (fc_path x) m u s" "lf_files s (TXIDPath (fc_path x)) = Some (txid_String tt u @ [10])"
    and "follow_poll tt x st ctx_err (u, n, s) = (None, u', n', s')"
    and "fst (applyNewLTXFiles x st u s) \<noteq> None \<Longrightarrow> \<forall>v\<in>stored_ends files st. v \<le> m"
  shows "u \<le> u' \<and> txid_ok u' \<and> tracked hist (fc_path x) m u' s' \<and> lf_files s' (TXIDPath (fc_path x)) = Some (txid_String tt u' @ [10])"
proof -
  obtain e u1 s1 where a: "applyNewLTXFiles x st u s = (e, u1, s1)" by (metis prod.exhaust)
  note pe = poll_effect [OF assms(1-3) a] and parts = follow_poll_parts [OF assms(5) a]
  have "tracked hist (fc_path x) m u' s1"
    using pe assms(6) parts(3) a by (cases "e = None"; cases "u < u1") auto
  then show ?thesis using pe(1) parts assms(2,4) tracked_cong [OF parts(1)] by auto
qed

lemma restart_inv:
  assumes "txid_codec tt" "good st" "txid_ok u" "tracked hist (fc_path x) m u s" "lf_files s (TXIDPath (fc_path x)) = Some (txid_String tt u @ [10])"
    and "follow_poll tt x st ctx_err (u, n, s) = (ro, u', n', s')" "\<forall>v\<in>stored_ends files st. v \<le> m"
    and "lf_files s2 = lf_files s'" "\<forall>k e. lf_fault s2 k = Some e \<longrightarrow> \<not> os_IsNotExist e" "ReadTXIDFile tt (fc_path x) s2 = (Inr v, s3)"
  shows "u \<le> v \<and> txid_ok v \<and> tracked hist (fc_path x) m v s3 \<and> lf_files s3 (TXIDPath (fc_path x)) = Some (txid_String tt v @ [10])"
proof -
  obtain e u1 s1 where a: "applyNewLTXFiles x st u s = (e, u1, s1)" by (metis prod.exhaust)
  note pe = poll_effect [OF assms(2-4) a] and parts = follow_poll_parts [OF assms(6) a]
  have side: "lf_files s1 (TXIDPath (fc_path x)) = Some (txid_String tt u @ [10])" using pe(1) assms(5) by simp
  obtain w where w: "w = u \<or> w = u1 \<and> e = None" "lf_files s' (TXIDPath (fc_path x)) = Some (txid_String tt w @ [10])"
    using parts(2) side by auto
  have ok: "txid_ok w" "u \<le> w" using w(1) pe(1) assms(3) by auto
  have "v = w" "lf_files s3 = lf_files s2"
    using txid_codec.sidecar_read [OF assms(1) ok(1) _ assms(9,10)] w(2) assms(8) by simp_all
  moreover have "tracked hist (fc_path x) m w s1" using w(1) pe(2,3) assms(7) by auto
  ultimately show ?thesis using ok w(2) assms(8) parts(1) by (simp add: tracked_def)
qed

end

lemma freach_inv:
  assumes fs: "follow_store x files okay hist good" and tc: "txid_codec tt" and u0: "txid_ok u0"
    and "lf_files s0 (fc_path x) = Some c0" "follows c0 (hist u0)" "lf_files s0 (TXIDPath (fc_path x)) = Some (txid_String tt u0 @ [10])"
    and "freach tt x files good u0 s0 F u s" "\<forall>v\<in>F. v \<le> m"
  shows "u0 \<le> u \<and> txid_ok u \<and> tracked hist (fc_path x) m u s \<and> lf_files s (TXIDPath (fc_path x)) = Some (txid_String tt u @ [10])"
  using assms(7,8)
proof induction
  case start
  have "tracks hist u0 m c0" using assms(5) tracks_exact [of 0 u0 hist c0] tracks_mono [of hist u0 0 c0 m] by simp
  then show ?case using assms(3,4,6) by (simp add: tracked_def)
next
  case (poll F u s st ctx_err n u' n' s' F')
  then show ?case using follow_store.poll_inv [OF fs poll.hyps(2) _ _ _ poll.hyps(3), of m] by (auto split: if_splits)
next
  case (restart F u s st ctx_err n ro u' n' s' s1 v s2)
  then show ?case using follow_store.restart_inv [OF fs tc restart.hyps(2) _ _ _ restart.hyps(3) _ restart.hyps(4-6), of m] by auto
qed

subsection \<open>Crash safety\<close>

text \<open>The text form of a TXID of \<^verbatim>\<open>src/docs/LTX_FORMAT.md\<close>: sixteen hexadecimal digits.\<close>

definition doc_txid :: txid_text where
  "doc_txid = \<lparr>txid_String = (\<lambda>t. go_bytes (fmt_hex 16 t)),
     ParseTXID = (\<lambda>bs. if length bs \<noteq> 16 then Inl (Errorf ''invalid formatted transaction id length'')
                       else case ParseUint_hex 64 (map (\<lambda>b. char_of (unat b)) bs) of
                              None \<Rightarrow> Inl (Errorf ''invalid transaction id format'') | Some t \<Rightarrow> Inr t)\<rparr>"

lemma unat_of_char [simp]: "unat (of_char c :: byte) = of_char c"
  using unat_of_nat [of "of_char c", where 'a = 8] nat_of_char_less_256 [of c] by (simp add: of_nat_of_char)

lemma digit_hex: "hex_val c \<noteq> None \<Longrightarrow> digit (of_char c)"
proof -
  have d: "c \<in> set cs" if "char_index c cs \<noteq> None" for cs
    using that by (auto simp: char_index_def dest!: map_of_SomeD set_zip_leftD)
  have all: "\<forall>c\<in>set ''0123456789abcdefABCDEF''. digit (of_char c)" by code_simp
  assume "hex_val c \<noteq> None"
  then have "c \<in> set ''0123456789abcdef'' \<or> c \<in> set ''ABCDEF''"
    using d by (fastforce simp: hex_val_def split: option.splits simp del: list.set)
  then show ?thesis using all by auto
qed

interpretation doc_sidecar: txid_codec doc_txid
proof unfold_locales
  fix t assume t: "txid_ok t"
  have l: "length (fmt_hex 16 t) = 16" using t by (intro length_fmt_hex) simp_all
  show "ParseTXID doc_txid (txid_String doc_txid t) = Inr t"
    using t l by (simp add: doc_txid_def go_bytes_def comp_def)
  show "txid_String doc_txid t \<noteq> [] \<and> (\<forall>b\<in>set (txid_String doc_txid t). digit b)"
    using l digit_hex [OF hex_val_in_fmt] by (auto simp: doc_txid_def go_bytes_def)
qed

text \<open>
  C34. Follow mode is crash-safe and converges: starting from a restored database at TXID \<open>u0\<close> with its sidecar, after
  any number of polls in which any read, write or system call may fail, and any number of kills and restarts, the
  sidecar holds the TXID the process is at, and as soon as that TXID has reached the end of all files that were stored
  when a poll did not succeed, the database file is the image of the source at that TXID, apart from the journal mode and
  the schema counter in its header.
\<close>

theorem follow_crash_safe:
  assumes "follow_store x files okay hist good" and "txid_codec tt" and "txid_ok u0"
    and "lf_files s0 (fc_path x) = Some c0" and "follows c0 (hist u0)"
    and "lf_files s0 (TXIDPath (fc_path x)) = Some (txid_String tt u0 @ [10])"
    and "freach tt x files good u0 s0 F u s" and "\<forall>v\<in>F. v \<le> u"
  shows "u0 \<le> u \<and> lf_files s (TXIDPath (fc_path x)) = Some (txid_String tt u @ [10]) \<and>
         (\<exists>c. lf_files s (fc_path x) = Some c \<and> follows c (hist u))"
  using freach_inv [OF assms] tracks_exact [of u u hist] by (auto simp: tracked_def)

text \<open>
  An instance: two-byte pages, a file is the size in pages followed by page numbers and pages. Transaction 1 writes page
  1 and transaction 2 writes page 2.
\<close>

fun test_pages :: "byte list \<Rightarrow> (u32 \<times> byte list) list" where
  "test_pages (p # d1 # d2 # rest) = (ucast p, [d1, d2]) # test_pages rest"
| "test_pages _ = []"

definition test_decoder :: ltx_decoder where
  "test_decoder ps = (\<lambda>(bs, e). case bs of
      [] \<Rightarrow> \<lparr>ld_header = Some (Sentinel ErrUnexpectedEOF), ld_commit = 0, ld_pages = [], ld_err = None, ld_close = None\<rparr>
    | c # rest \<Rightarrow> \<lparr>ld_header = None, ld_commit = ucast c, ld_pages = test_pages rest, ld_err = e, ld_close = None\<rparr>)"

definition test_hist :: "txid \<Rightarrow> byte list" where
  "test_hist t = (if t = 0 then [] else if t = 1 then [1, 1] else [1, 1, 2, 2])"

definition test_follow :: "filesys follow_ctx" where
  "test_follow = \<lparr>fc_dec = test_decoder, fc_codec = test_codec, fc_replica = NewReplica, fc_client = doc_client,
     fc_path = ''db'', fc_pageSize = 2\<rparr>"

abbreviation test_files :: "(file_key \<times> fs_file) list" where
  "test_files \<equiv> [((0, 1, 1), ([1, 1, 1, 1], 5)), ((0, 2, 2), ([2, 2, 2, 2], 6))]"

definition test_good :: "filesys \<Rightarrow> bool" where
  "test_good st \<longleftrightarrow> st = mem_fs test_files"

lemma test_delivers:
  "delivers test_hist 2 (test_decoder 2 ([1, 1, 1, 1], None)) 1 1" "delivers test_hist 2 (test_decoder 2 ([2, 2, 2, 2], None)) 2 2"
proof -
  have p: "page_of 2 1 i \<longleftrightarrow> i = 0 \<or> i = 1" "page_of 2 2 i \<longleftrightarrow> i = 2 \<or> i = 3" for i by (auto simp: page_of_def)
  have 2: "bstable test_hist 1 2 i" if "i < 2" for i
  proof -
    have "i = 0 \<or> i = 1" using that by linarith
    then show ?thesis by (auto simp: bstable_def test_hist_def)
  qed
  have "delta test_hist 2 1 [(1, [1, 1])] 1 1" "delta test_hist 2 2 [(2, [2, 2])] 2 2"
    using p 2 by (auto simp: delta_def page_ok_def test_hist_def)
  then show "delivers test_hist 2 (test_decoder 2 ([1, 1, 1, 1], None)) 1 1" "delivers test_hist 2 (test_decoder 2 ([2, 2, 2, 2], None)) 2 2"
    by (auto simp: delivers_def test_decoder_def)
qed

interpretation test_source: follow_store test_follow "file_objects doc_FormatFilename" "fs_inv doc_FormatFilename doc_ParseFilename" test_hist test_good
proof (rule follow_store.intro)
  show "replica_client (fc_client test_follow) (file_objects doc_FormatFilename) (fs_inv doc_FormatFilename doc_ParseFilename)"
    using doc_client_contract by (simp add: test_follow_def)
  have inv: "fs_inv doc_FormatFilename doc_ParseFilename st" if "test_good st" for st
    using that unfolding test_good_def by (simp only:) (rule fs_inv_mem, simp)
  show "follow_store_axioms test_follow (fs_inv doc_FormatFilename doc_ParseFilename) test_hist test_good"
  proof
    fix st level a b rc
    assume g: "test_good st" and ok: "txid_ok a" "txid_ok b"
      and op: "rp_OpenLTXFile (fc_codec test_follow) (fc_replica test_follow) (fc_client test_follow) st level a b 0 0 = Inr rc"
    have op': "OpenLTXFile doc_client st level a b 0 0 = Inr rc"
      using op by (auto simp: test_follow_def rp_OpenLTXFile_def DecryptionEnabled_def NewReplica_def split: sum.splits)
    have "snd rc = None" using op' by (auto simp: doc_client_def file_client_def file_OpenLTXFile_def Let_def split: option.splits sum.splits)
    then obtain ts where f: "file_objects doc_FormatFilename st (level, a, b) = Some (fst rc, ts)"
      using replica_client.open_ok [OF doc_client_contract inv [OF g] ok, of level 0 0 "fst rc"] op' by (cases rc) (auto simp: range_of_def)
    have "file_objects doc_FormatFilename st = map_of test_files" using g unfolding test_good_def by (simp only:) (rule mem_fs_objects, simp)
    then have "(a, b, fst rc) = (1, 1, [1, 1, 1, 1]) \<or> (a, b, fst rc) = (2, 2, [2, 2, 2, 2])" using f by (auto split: if_splits)
    then show "delivers test_hist (fc_pageSize test_follow) (fc_dec test_follow (fc_pageSize test_follow) rc) a b"
      using test_delivers \<open>snd rc = None\<close> by (cases rc) (auto simp: test_follow_def)
  qed (rule inv)
qed

definition test_lfs :: lfs where
  "test_lfs = \<lparr>lf_files = [''db'' \<mapsto> [1, 1], ''db-txid'' \<mapsto> txid_String doc_txid 1 @ [10]], lf_tick = 0,
     lf_fault = (\<lambda>k. if k = 1 then Some (Errorf ''input/output error'') else None), lf_short = (\<lambda>_. 1), lf_rand = (\<lambda>_. 0)\<rparr>"

text \<open>The files of the process started again after it was killed in the middle of a page write.\<close>

definition test_lfs' :: "nat \<Rightarrow> lfs" where
  "test_lfs' k = \<lparr>lf_files = [''db'' \<mapsto> [1, 1, 2], ''db-txid'' \<mapsto> txid_String doc_txid 1 @ [10]], lf_tick = k,
     lf_fault = (\<lambda>_. None), lf_short = (\<lambda>_. 0), lf_rand = (\<lambda>_. 0)\<rparr>"

lemma test_killed:
  "\<exists>n' s'. follow_poll doc_txid test_follow (mem_fs test_files) False (1, 0, test_lfs) = (None, 1, n', s') \<and> lf_files (test_lfs' 0) = lf_files s'"
proof -
  let ?p = "follow_poll doc_txid test_follow (mem_fs test_files) False (1, 0, test_lfs)"
  have r: "fst ?p = None \<and> fst (snd ?p) = 1 \<and> lf_files (snd (snd (snd ?p))) ''db'' = Some [1, 1, 2]" by code_simp
  have a: "fst (applyNewLTXFiles test_follow (mem_fs test_files) 1 test_lfs) \<noteq> None" by code_simp
  obtain e u1 s1 where ap: "applyNewLTXFiles test_follow (mem_fs test_files) 1 test_lfs = (Some e, u1, s1)"
    using a by (metis prod.collapse option.exhaust)
  have p: "?p = (None, 1, 1, s1)" unfolding follow_poll_def split ap by simp
  have "fspec test_hist (fc_path test_follow) 0 (2 ^ 64 - 1) 1 test_lfs (Some e) u1 s1"
  proof (rule test_source.applyNew_spec [OF _ _ _ ap])
    show "test_good (mem_fs test_files)" by (simp add: test_good_def)
    then show "snd (snd k) \<le> 2 ^ 64 - 1" if "file_objects doc_FormatFilename (mem_fs test_files) k = Some v" for k v
      using test_source.stored_ends_ok [of _ "snd (snd k)"] that unfolding stored_ends_def by (metis (mono_tags, lifting) mem_Collect_eq prod.collapse)
    show "tracked test_hist (fc_path test_follow) 0 1 test_lfs"
      by (simp add: tracked_def tracks_exact follows_def test_hist_def test_lfs_def test_follow_def)
  qed
  then obtain c where "lf_files s1 = (lf_files test_lfs)(''db'' \<mapsto> c)" by (auto simp: fspec_def test_follow_def)
  then show ?thesis using p r by (auto simp: test_lfs_def test_lfs'_def fun_eq_iff)
qed

theorem follow_crash_safe_witness:
  "\<exists>s. freach doc_txid test_follow (file_objects doc_FormatFilename) test_good 1 test_lfs {1, 2} 2 s \<and>
       lf_files s ''db'' = Some [1, 1, 2, 2]"
proof -
  let ?reach = "freach doc_txid test_follow (file_objects doc_FormatFilename) test_good 1 test_lfs"
  define st where "st = mem_fs test_files"
  have g: "test_good st" by (simp add: test_good_def st_def)
  have "file_objects doc_FormatFilename st = map_of test_files" unfolding st_def by (rule mem_fs_objects) simp
  then have ends: "stored_ends (file_objects doc_FormatFilename) st = {1, 2}" by (auto simp: stored_ends_def split: if_splits)
  obtain n' s' where k: "follow_poll doc_txid test_follow st False (1, 0, test_lfs) = (None, 1, n', s')" "lf_files (test_lfs' 0) = lf_files s'"
    using test_killed unfolding st_def by blast
  have rd: "ReadTXIDFile doc_txid (fc_path test_follow) (test_lfs' 0) = (Inr 1, test_lfs' 1)"
    using doc_sidecar.TrimSpace_txid [of 1] doc_sidecar.parse [of 1]
    by (simp add: ReadTXIDFile_def lf_ReadFile_def sys_def test_lfs'_def test_follow_def TXIDPath_def)
  have f1: "?reach ({} \<union> stored_ends (file_objects doc_FormatFilename) st) 1 (test_lfs' 1)"
    by (rule freach.restart [where good = test_good and u = 1 and s = test_lfs and st = st and F = "{}" and ctx_err = False and n = 0, OF freach.start [of _ _ _ test_good 1 test_lfs] g k _ rd])
       (simp add: test_lfs'_def)
  define p2 where "p2 = follow_poll doc_txid test_follow st False (1, 0, test_lfs' 1)"
  have r2: "fst p2 = None" "fst (snd p2) = 2" "fst (applyNewLTXFiles test_follow st 1 (test_lfs' 1)) = None"
    unfolding p2_def st_def by code_simp+
  have "?reach ({} \<union> stored_ends (file_objects doc_FormatFilename) st) 2 (snd (snd (snd p2)))"
    by (rule freach.poll [where u = 1 and s = "test_lfs' 1" and st = st and ctx_err = False and n = 0 and n' = "fst (snd (snd p2))"])
       (use r2 f1 g in \<open>auto simp: p2_def [symmetric] prod_eq_iff simp del: One_nat_def\<close>)
  then have f: "?reach {1, 2} 2 (snd (snd (snd p2)))" by (simp add: ends)
  obtain c where "lf_files (snd (snd (snd p2))) (fc_path test_follow) = Some c" "follows c (test_hist 2)"
    using follow_crash_safe [OF test_source.follow_store_axioms doc_sidecar.txid_codec_axioms _ _ _ _ f, of "[1, 1]"]
    by (auto simp: test_lfs_def test_follow_def follows_def test_hist_def TXIDPath_def)
  then have "lf_files (snd (snd (snd p2))) ''db'' = Some [1, 1, 2, 2]"
    using follows_small [of "test_hist 2" c] by (simp add: test_follow_def test_hist_def)
  then show ?thesis using f by blast
qed

text \<open>
  C35. Writing the sidecar is atomic: whichever calls fail, no other file than the temporary one changes, and the sidecar
  is unchanged or complete; a process that reads it afterwards gets the old result or the new TXID, and the new TXID if
  the write succeeded.
\<close>

theorem txid_file_atomic:
  assumes "txid_codec tt" and "txid_ok t" and "WriteTXIDFile tt out t s = (r, s')"
    and "lf_files s2 = lf_files s'" and "\<forall>k. lf_fault s2 k = None"
  shows "(\<forall>p. p \<noteq> TXIDPath out \<longrightarrow> p \<noteq> TXIDPath out @ ''.tmp'' \<longrightarrow> lf_files s' p = lf_files s p) \<and>
         (fst (ReadTXIDFile tt out s2) = Inr t \<or>
          r \<noteq> None \<and> lf_files s' (TXIDPath out) = lf_files s (TXIDPath out) \<and>
          fst (ReadTXIDFile tt out s2) = fst (ReadTXIDFile tt out (s2\<lparr>lf_files := lf_files s\<rparr>)))"
proof -
  note w = WriteTXIDFile_files [OF assms(3)]
  have rd: "fst (ReadTXIDFile tt out s2) = Inr t" if "lf_files s' (TXIDPath out) = Some (txid_String tt t @ [10])"
    using that assms(4,5) txid_codec.TrimSpace_txid [OF assms(1,2)] txid_codec.parse [OF assms(1,2)]
    by (simp add: ReadTXIDFile_def lf_ReadFile_def sys_def)
  have same: "fst (ReadTXIDFile tt out s2) = fst (ReadTXIDFile tt out (s2\<lparr>lf_files := lf_files s\<rparr>))"
    if "lf_files s' (TXIDPath out) = lf_files s (TXIDPath out)"
    using that assms(4,5) by (simp add: ReadTXIDFile_def lf_ReadFile_def sys_def split: option.splits sum.splits)
  show ?thesis using w rd same by blast
qed

text \<open>The rename fails: the old TXID is read.\<close>

theorem txid_file_atomic_witness:
  "\<exists>r s'. WriteTXIDFile doc_txid ''db'' 2 (test_lfs\<lparr>lf_fault := (\<lambda>k. if k = 4 then Some (Errorf ''input/output error'') else None)\<rparr>) = (r, s') \<and>
          r \<noteq> None \<and> fst (ReadTXIDFile doc_txid ''db'' (s'\<lparr>lf_fault := (\<lambda>_. None)\<rparr>)) = Inr 1"
proof -
  let ?s = "test_lfs\<lparr>lf_fault := (\<lambda>k. if k = 4 then Some (Errorf ''input/output error'') else None)\<rparr>"
  obtain r s' where w: "WriteTXIDFile doc_txid ''db'' 2 ?s = (r, s')" by (metis prod.exhaust)
  let ?s2 = "s'\<lparr>lf_fault := (\<lambda>_. None)\<rparr>"
  have "fst (WriteTXIDFile doc_txid ''db'' 2 ?s) \<noteq> None" by code_simp
  then have r: "r \<noteq> None" using w by simp
  have "lf_files (snd (WriteTXIDFile doc_txid ''db'' 2 ?s)) ''db-txid'' = Some (txid_String doc_txid 1 @ [10])" by code_simp
  then have "fst (ReadTXIDFile doc_txid ''db'' ?s2) = Inr 1"
    using w doc_sidecar.TrimSpace_txid [of 1] doc_sidecar.parse [of 1] by (simp add: ReadTXIDFile_def lf_ReadFile_def sys_def TXIDPath_def)
  moreover have "\<forall>p. p \<noteq> TXIDPath ''db'' \<longrightarrow> p \<noteq> TXIDPath ''db'' @ ''.tmp'' \<longrightarrow> lf_files s' p = lf_files ?s p"
    using txid_file_atomic [OF doc_sidecar.txid_codec_axioms _ w, of ?s2] by simp
  ultimately show ?thesis using w r by blast
qed

end
