(* ===== verification/V3.thy ===== *)
theory V3
  imports Replica Hex LocalFS "HOL-Library.List_Lexorder" "HOL-Library.Char_ord" "HOL-Library.Product_Lexorder"
begin

text \<open>
  Backups in the format of version 0.3 (\<^verbatim>\<open>src/v3.go\<close>, the functions with suffix V3 of \<^verbatim>\<open>src/file/replica_client.go\<close> and of
  \<^verbatim>\<open>src/replica.go\<close>): names of snapshots and WAL segments, listing through a client, the selection of a snapshot, and the
  restore up to the temporary database file. Indexes and offsets are integers of Go's \<^verbatim>\<open>int\<close> and \<^verbatim>\<open>int64\<close>. LZ4, age and
  SQLite are parameters.
\<close>

subsection \<open>Paths\<close>

text \<open>\<open>path.Join\<close> and \<open>filepath.Join\<close> of Go on Unix: the elements that are not empty are joined and the result is cleaned
  lexically.\<close>

fun split_path :: "string \<Rightarrow> string list" where
  "split_path [] = [[]]"
| "split_path (c # cs) =
     (if c = CHR ''/'' then [] # split_path cs
      else case split_path cs of [] \<Rightarrow> [[c]] | w # ws \<Rightarrow> (c # w) # ws)"

definition clean_step :: "bool \<Rightarrow> string \<Rightarrow> string list \<Rightarrow> string list" where
  "clean_step rooted w acc =
     (if w = [] \<or> w = ''.'' then acc
      else if w = ''..'' then (if acc \<noteq> [] \<and> last acc \<noteq> ''..'' then butlast acc else if rooted then acc else acc @ [w])
      else acc @ [w])"

fun join_path :: "string list \<Rightarrow> string" where
  "join_path [] = []"
| "join_path [w] = w"
| "join_path (w # ws) = w @ ''/'' @ join_path ws"

definition path_Clean :: "string \<Rightarrow> string" where
  "path_Clean p =
     (if p = [] then ''.''
      else let rooted = (hd p = CHR ''/''); ws = fold (clean_step rooted) (split_path p) []
           in if rooted then CHR ''/'' # join_path ws else if ws = [] then ''.'' else join_path ws)"

definition path_Join :: "string list \<Rightarrow> string" where
  "path_Join ws =
     (case dropWhile (\<lambda>w. w = []) ws of [] \<Rightarrow> [] | ws \<Rightarrow> path_Clean (join_path ws))"

subsection \<open>Positions and names\<close>

record PosV3 =
  pos_Generation :: string
  pos_Index :: int
  pos_Offset :: int

definition PosV3_IsZero :: "PosV3 \<Rightarrow> bool" where
  "PosV3_IsZero p \<longleftrightarrow> pos_Generation p = [] \<and> pos_Index p = 0 \<and> pos_Offset p = 0"

text \<open>The verb \<^verbatim>\<open>%0wx\<close> on a signed integer: the sign counts for the width.\<close>

definition fmt_int :: "nat \<Rightarrow> int \<Rightarrow> string" where
  "fmt_int w n = (if n < 0 then CHR ''-'' # fmt_hex (w - 1) (nat (- n)) else fmt_hex w (nat n))"

definition PosV3_String :: "PosV3 \<Rightarrow> string" where
  "PosV3_String p =
     (if PosV3_IsZero p then []
      else pos_Generation p @ ''/'' @ fmt_int 8 (pos_Index p) @ '':'' @ fmt_int 16 (pos_Offset p))"

record SnapshotInfoV3 =
  sn_Generation :: string
  sn_Index :: int
  sn_Size :: nat
  sn_CreatedAt :: instant

definition SnapshotInfoV3_Pos :: "SnapshotInfoV3 \<Rightarrow> PosV3" where
  "SnapshotInfoV3_Pos info = \<lparr>pos_Generation = sn_Generation info, pos_Index = sn_Index info, pos_Offset = 0\<rparr>"

record WALSegmentInfoV3 =
  sg_Generation :: string
  sg_Index :: int
  sg_Offset :: int
  sg_Size :: nat
  sg_CreatedAt :: instant

definition WALSegmentInfoV3_Pos :: "WALSegmentInfoV3 \<Rightarrow> PosV3" where
  "WALSegmentInfoV3_Pos info = \<lparr>pos_Generation = sg_Generation info, pos_Index = sg_Index info, pos_Offset = sg_Offset info\<rparr>"

definition GenerationsDirV3 :: string where
  "GenerationsDirV3 = ''generations''"

definition SnapshotsDirV3 :: string where
  "SnapshotsDirV3 = ''snapshots''"

definition WALDirV3 :: string where
  "WALDirV3 = ''wal''"

definition GenerationsPathV3 :: "string \<Rightarrow> string" where
  "GenerationsPathV3 root = path_Join [root, GenerationsDirV3]"

definition GenerationPathV3 :: "string \<Rightarrow> string \<Rightarrow> string" where
  "GenerationPathV3 root generation = path_Join [root, GenerationsDirV3, generation]"

definition SnapshotsPathV3 :: "string \<Rightarrow> string \<Rightarrow> string" where
  "SnapshotsPathV3 root generation = path_Join [root, GenerationsDirV3, generation, SnapshotsDirV3]"

definition WALPathV3 :: "string \<Rightarrow> string \<Rightarrow> string" where
  "WALPathV3 root generation = path_Join [root, GenerationsDirV3, generation, WALDirV3]"

definition FormatSnapshotFilenameV3 :: "int \<Rightarrow> string" where
  "FormatSnapshotFilenameV3 index = fmt_int 8 index @ ''.snapshot.lz4''"

definition FormatWALSegmentFilenameV3 :: "int \<Rightarrow> int \<Rightarrow> string" where
  "FormatWALSegmentFilenameV3 index offset = fmt_int 8 index @ ''_'' @ fmt_int 8 offset @ ''.wal.lz4''"

definition SnapshotPathV3 :: "string \<Rightarrow> string \<Rightarrow> int \<Rightarrow> string" where
  "SnapshotPathV3 root generation index = path_Join [SnapshotsPathV3 root generation, FormatSnapshotFilenameV3 index]"

definition WALSegmentPathV3 :: "string \<Rightarrow> string \<Rightarrow> int \<Rightarrow> int \<Rightarrow> string" where
  "WALSegmentPathV3 root generation index offset = path_Join [WALPathV3 root generation, FormatWALSegmentFilenameV3 index offset]"

text \<open>The regular expressions: \<open>hex_field\<close> is \<^verbatim>\<open>[0-9a-f]{n}\<close> at the front of a text.\<close>

definition lower_hex :: "char \<Rightarrow> bool" where
  "lower_hex c \<longleftrightarrow> c \<in> set ''0123456789abcdef''"

definition hex_field :: "nat \<Rightarrow> string \<Rightarrow> (string \<times> string) option" where
  "hex_field n s = (if length s \<ge> n \<and> list_all lower_hex (take n s) then Some (take n s, drop n s) else None)"

definition ParseInt16 :: "string \<Rightarrow> int" where
  "ParseInt16 s = (case hex_fold 0 s of None \<Rightarrow> 0 | Some n \<Rightarrow> int n)"

definition ParseSnapshotFilenameV3 :: "string \<Rightarrow> goerr + int" where
  "ParseSnapshotFilenameV3 filename =
     (case hex_field 8 filename of
        Some (m1, rest) \<Rightarrow>
          if rest = ''.snapshot.lz4'' then Inr (ParseInt16 m1) else Inl (Errorf ''invalid v0.3.x snapshot filename'')
      | None \<Rightarrow> Inl (Errorf ''invalid v0.3.x snapshot filename''))"

definition ParseWALSegmentFilenameV3 :: "string \<Rightarrow> goerr + int \<times> int" where
  "ParseWALSegmentFilenameV3 filename =
     (case hex_field 8 filename of
        Some (m1, CHR ''_'' # rest) \<Rightarrow>
          (case hex_field 8 rest of
             Some (m2, rest) \<Rightarrow>
               if rest = ''.wal.lz4'' then Inr (ParseInt16 m1, ParseInt16 m2)
               else Inl (Errorf ''invalid v0.3.x WAL segment filename'')
           | None \<Rightarrow> Inl (Errorf ''invalid v0.3.x WAL segment filename''))
      | _ \<Rightarrow> Inl (Errorf ''invalid v0.3.x WAL segment filename''))"

definition IsGenerationIDV3 :: "string \<Rightarrow> bool" where
  "IsGenerationIDV3 s \<longleftrightarrow> (case hex_field 16 s of Some (_, rest) \<Rightarrow> rest = [] | None \<Rightarrow> False)"

subsection \<open>The client\<close>

text \<open>The Go interface \<open>ReplicaClientV3\<close> on a fixed backup.\<close>

record ReplicaClientV3 =
  GenerationsV3 :: "goerr + string list"
  SnapshotsV3 :: "string \<Rightarrow> goerr + SnapshotInfoV3 list"
  WALSegmentsV3 :: "string \<Rightarrow> goerr + WALSegmentInfoV3 list"
  OpenSnapshotV3 :: "string \<Rightarrow> int \<Rightarrow> goerr + stream"
  OpenWALSegmentV3 :: "string \<Rightarrow> int \<Rightarrow> int \<Rightarrow> goerr + stream"

text \<open>The file client on a tree of directories: \<open>os.ReadDir\<close> gives the entries of a path, an entry has its name, whether it
  is a directory, and the result of \<open>Info\<close>: size and modification time.\<close>

record dirent =
  de_Name :: string
  de_IsDir :: bool
  de_Info :: "goerr + nat \<times> instant"

record v3fs =
  v3_ReadDir :: "string \<Rightarrow> goerr + dirent list"
  v3_Open :: "string \<Rightarrow> goerr + stream"

definition file_GenerationsV3 :: "string \<Rightarrow> v3fs \<Rightarrow> goerr + string list" where
  "file_GenerationsV3 root fs =
     (case v3_ReadDir fs (path_Join [root, GenerationsDirV3]) of
        Inl err \<Rightarrow> if os_IsNotExist err then Inr [] else Inl err
      | Inr entries \<Rightarrow> Inr (sort (map de_Name (filter (\<lambda>e. de_IsDir e \<and> IsGenerationIDV3 (de_Name e)) entries))))"

fun snapshot_entries :: "string \<Rightarrow> dirent list \<Rightarrow> goerr + SnapshotInfoV3 list" where
  "snapshot_entries generation [] = Inr []"
| "snapshot_entries generation (e # es) =
     (if de_IsDir e then snapshot_entries generation es
      else case ParseSnapshotFilenameV3 (de_Name e) of
        Inl _ \<Rightarrow> snapshot_entries generation es
      | Inr index \<Rightarrow>
          (case de_Info e of
             Inl err \<Rightarrow> Inl err
           | Inr (sz, mtime) \<Rightarrow>
               (case snapshot_entries generation es of
                  Inl err \<Rightarrow> Inl err
                | Inr rest \<Rightarrow> Inr (\<lparr>sn_Generation = generation, sn_Index = index, sn_Size = sz, sn_CreatedAt = mtime\<rparr> # rest))))"

definition file_SnapshotsV3 :: "string \<Rightarrow> v3fs \<Rightarrow> string \<Rightarrow> goerr + SnapshotInfoV3 list" where
  "file_SnapshotsV3 root fs generation =
     (case v3_ReadDir fs (path_Join [root, GenerationsDirV3, generation, SnapshotsDirV3]) of
        Inl err \<Rightarrow> if os_IsNotExist err then Inr [] else Inl err
      | Inr entries \<Rightarrow>
          (case snapshot_entries generation entries of
             Inl err \<Rightarrow> Inl err
           | Inr snapshots \<Rightarrow> Inr (sort_key sn_Index snapshots)))"

fun segment_entries :: "string \<Rightarrow> dirent list \<Rightarrow> goerr + WALSegmentInfoV3 list" where
  "segment_entries generation [] = Inr []"
| "segment_entries generation (e # es) =
     (if de_IsDir e then segment_entries generation es
      else case ParseWALSegmentFilenameV3 (de_Name e) of
        Inl _ \<Rightarrow> segment_entries generation es
      | Inr (index, offset) \<Rightarrow>
          (case de_Info e of
             Inl err \<Rightarrow> Inl err
           | Inr (sz, mtime) \<Rightarrow>
               (case segment_entries generation es of
                  Inl err \<Rightarrow> Inl err
                | Inr rest \<Rightarrow>
                    Inr (\<lparr>sg_Generation = generation, sg_Index = index, sg_Offset = offset, sg_Size = sz, sg_CreatedAt = mtime\<rparr> # rest))))"

definition file_WALSegmentsV3 :: "string \<Rightarrow> v3fs \<Rightarrow> string \<Rightarrow> goerr + WALSegmentInfoV3 list" where
  "file_WALSegmentsV3 root fs generation =
     (case v3_ReadDir fs (path_Join [root, GenerationsDirV3, generation, WALDirV3]) of
        Inl err \<Rightarrow> if os_IsNotExist err then Inr [] else Inl err
      | Inr entries \<Rightarrow>
          (case segment_entries generation entries of
             Inl err \<Rightarrow> Inl err
           | Inr segments \<Rightarrow> Inr (sort_key (\<lambda>seg. (sg_Index seg, sg_Offset seg)) segments)))"

definition file_OpenSnapshotV3 :: "(stream \<Rightarrow> stream) \<Rightarrow> string \<Rightarrow> v3fs \<Rightarrow> string \<Rightarrow> int \<Rightarrow> goerr + stream" where
  "file_OpenSnapshotV3 lz4 root fs generation index =
     (case v3_Open fs (path_Join [root, GenerationsDirV3, generation, SnapshotsDirV3, FormatSnapshotFilenameV3 index]) of
        Inl err \<Rightarrow> Inl err
      | Inr f \<Rightarrow> Inr (lz4 f))"

definition file_OpenWALSegmentV3 :: "(stream \<Rightarrow> stream) \<Rightarrow> string \<Rightarrow> v3fs \<Rightarrow> string \<Rightarrow> int \<Rightarrow> int \<Rightarrow> goerr + stream" where
  "file_OpenWALSegmentV3 lz4 root fs generation index offset =
     (case v3_Open fs (path_Join [root, GenerationsDirV3, generation, WALDirV3, FormatWALSegmentFilenameV3 index offset]) of
        Inl err \<Rightarrow> Inl err
      | Inr f \<Rightarrow> Inr (lz4 f))"

definition file_client_v3 :: "(stream \<Rightarrow> stream) \<Rightarrow> string \<Rightarrow> v3fs \<Rightarrow> ReplicaClientV3" where
  "file_client_v3 lz4 root fs =
     \<lparr>GenerationsV3 = file_GenerationsV3 root fs, SnapshotsV3 = file_SnapshotsV3 root fs,
      WALSegmentsV3 = file_WALSegmentsV3 root fs, OpenSnapshotV3 = file_OpenSnapshotV3 lz4 root fs,
      OpenWALSegmentV3 = file_OpenWALSegmentV3 lz4 root fs\<rparr>"

subsection \<open>Selection of a snapshot\<close>

text \<open>\<open>sortSnapshotsV3ByCreatedAt\<close>: the two nested loops that exchange elements.\<close>

definition exchange :: "nat \<Rightarrow> nat \<Rightarrow> SnapshotInfoV3 list \<Rightarrow> SnapshotInfoV3 list" where
  "exchange i j xs =
     (if sn_CreatedAt (xs ! i) > sn_CreatedAt (xs ! j) then xs[i := xs ! j, j := xs ! i] else xs)"

definition exchange_row :: "nat \<Rightarrow> SnapshotInfoV3 list \<Rightarrow> SnapshotInfoV3 list" where
  "exchange_row i xs = fold (exchange i) [Suc i..<length xs] xs"

definition sortSnapshotsV3ByCreatedAt :: "SnapshotInfoV3 list \<Rightarrow> SnapshotInfoV3 list" where
  "sortSnapshotsV3ByCreatedAt xs = fold exchange_row [0..<length xs - 1] xs"

definition findBestSnapshotV3 :: "SnapshotInfoV3 list \<Rightarrow> instant \<Rightarrow> SnapshotInfoV3 option" where
  "findBestSnapshotV3 snapshots timestamp =
     (if snapshots = [] then None
      else if timestamp = 0 then Some (last snapshots)
      else List.find (\<lambda>s. \<not> sn_CreatedAt s > timestamp) (rev snapshots))"

definition filterWALSegmentsV3 :: "WALSegmentInfoV3 list \<Rightarrow> int \<Rightarrow> instant \<Rightarrow> WALSegmentInfoV3 list" where
  "filterWALSegmentsV3 segments snapshotIndex timestamp =
     filter (\<lambda>seg. \<not> sg_Index seg < snapshotIndex \<and> \<not> (timestamp \<noteq> 0 \<and> sg_CreatedAt seg > timestamp)) segments"

fun collect_snapshots :: "string \<Rightarrow> ReplicaClientV3 \<Rightarrow> string list \<Rightarrow> goerr + SnapshotInfoV3 list" where
  "collect_snapshots msg client [] = Inr []"
| "collect_snapshots msg client (gen # gens) =
     (case SnapshotsV3 client gen of
        Inl err \<Rightarrow> Inl (Wrapf msg err)
      | Inr snapshots \<Rightarrow>
          (case collect_snapshots msg client gens of
             Inl err \<Rightarrow> Inl err
           | Inr rest \<Rightarrow> Inr (snapshots @ rest)))"

definition findBestV3SnapshotForTimestamp :: "ReplicaClientV3 \<Rightarrow> instant \<Rightarrow> goerr + SnapshotInfoV3 option" where
  "findBestV3SnapshotForTimestamp client timestamp =
     (case GenerationsV3 client of
        Inl err \<Rightarrow> Inl (Wrapf ''list v0.3.x generations'' err)
      | Inr generations \<Rightarrow>
          if generations = [] then Inr None
          else case collect_snapshots ''list v0.3.x snapshots for generation'' client generations of
            Inl err \<Rightarrow> Inl err
          | Inr allSnapshots \<Rightarrow>
              if allSnapshots = [] then Inr None
              else Inr (findBestSnapshotV3 (sortSnapshotsV3ByCreatedAt allSnapshots) timestamp))"

fun bounds_generations :: "ReplicaClientV3 \<Rightarrow> string list \<Rightarrow> instant \<times> instant \<Rightarrow> goerr + instant \<times> instant" where
  "bounds_generations client [] b = Inr b"
| "bounds_generations client (gen # gens) b =
     (case SnapshotsV3 client gen of
        Inl err \<Rightarrow> Inl err
      | Inr snapshots \<Rightarrow>
          let b = fold (\<lambda>snap. extend_bounds (sn_CreatedAt snap)) snapshots b
          in case WALSegmentsV3 client gen of
               Inl err \<Rightarrow> Inl err
             | Inr segments \<Rightarrow> bounds_generations client gens (fold (\<lambda>seg. extend_bounds (sg_CreatedAt seg)) segments b))"

definition TimeBoundsV3 :: "ReplicaClientV3 \<Rightarrow> goerr + instant \<times> instant" where
  "TimeBoundsV3 client =
     (case GenerationsV3 client of
        Inl err \<Rightarrow> Inl err
      | Inr generations \<Rightarrow> bounds_generations client generations (0, 0))"

definition findBestLTXSnapshotForTimestamp :: "'s ReplicaClient \<Rightarrow> 's \<Rightarrow> instant \<Rightarrow> goerr + FileInfo option" where
  "findBestLTXSnapshotForTimestamp client s timestamp =
     (case FindLTXFiles client s SnapshotLevel True (\<lambda>info. (CreatedAt info < timestamp, None)) of
        (_, Some err) \<Rightarrow> Inl (Wrapf ''find LTX snapshots'' err)
      | (snapshots, None) \<Rightarrow> Inr (if snapshots = [] then None else Some (last snapshots)))"

definition shouldUseV3Restore :: "'s ReplicaClient \<Rightarrow> 's \<Rightarrow> ReplicaClientV3 \<Rightarrow> instant \<Rightarrow> goerr + bool" where
  "shouldUseV3Restore client s v3 timestamp =
     (case TimeBoundsV3 v3 of
        Inl err \<Rightarrow> Inl (Wrapf ''get v0.3.x time bounds'' err)
      | Inr (_, v3UpdatedAt) \<Rightarrow>
     (case TimeBounds client s of
        (_, Some err) \<Rightarrow> Inl (Wrapf ''get LTX time bounds'' err)
      | ((_, ltxUpdatedAt), None) \<Rightarrow>
          if v3UpdatedAt = 0 then Inr False
          else if ltxUpdatedAt = 0 then Inr True
          else if timestamp \<noteq> 0
          then (case findBestV3SnapshotForTimestamp v3 timestamp of
                  Inl err \<Rightarrow> Inl (Wrapf ''find v0.3.x snapshot'' err)
                | Inr v3Snapshot \<Rightarrow>
               (case findBestLTXSnapshotForTimestamp client s timestamp of
                  Inl err \<Rightarrow> Inl (Wrapf ''find LTX snapshot'' err)
                | Inr ltxSnapshot \<Rightarrow>
                    Inr (case v3Snapshot of
                           None \<Rightarrow> False
                         | Some v3 \<Rightarrow>
                             (case ltxSnapshot of None \<Rightarrow> True | Some ltx \<Rightarrow> sn_CreatedAt v3 > CreatedAt ltx))))
          else Inr (v3UpdatedAt > ltxUpdatedAt)))"

definition CalcRestoreTarget :: "'s ReplicaClient \<Rightarrow> 's \<Rightarrow> ReplicaClientV3 option \<Rightarrow> instant \<Rightarrow> goerr + instant" where
  "CalcRestoreTarget client s v3 timestamp =
     (case TimeBounds client s of
        (_, Some err) \<Rightarrow> Inl (Wrapf ''created at'' err)
      | ((createdAt, updatedAt), None) \<Rightarrow>
     (case (case v3 of
              None \<Rightarrow> Inr (createdAt, updatedAt)
            | Some v3 \<Rightarrow>
                (case TimeBoundsV3 v3 of
                   Inl err \<Rightarrow> Inl (Wrapf ''v0.3.x time bounds'' err)
                 | Inr (v3CreatedAt, v3UpdatedAt) \<Rightarrow>
                     Inr (if v3CreatedAt \<noteq> 0 \<and> (createdAt = 0 \<or> v3CreatedAt < createdAt) then v3CreatedAt else createdAt,
                          if v3UpdatedAt \<noteq> 0 \<and> (updatedAt = 0 \<or> v3UpdatedAt > updatedAt) then v3UpdatedAt else updatedAt))) of
        Inl err \<Rightarrow> Inl err
      | Inr (createdAt, updatedAt) \<Rightarrow>
          if timestamp \<noteq> 0 \<and> createdAt = 0 \<and> updatedAt = 0 then Inl (Errorf ''no backups found'')
          else if timestamp \<noteq> 0 \<and> (timestamp < createdAt \<or> timestamp > updatedAt) then Inl (Errorf ''timestamp does not exist'')
          else Inr updatedAt))"

subsection \<open>Restoring into the temporary file\<close>

text \<open>The stream of a client, decrypted when the replica has identities.\<close>

definition open_sealed :: "string \<Rightarrow> codec \<Rightarrow> Replica \<Rightarrow> stream \<Rightarrow> goerr + stream" where
  "open_sealed msg cd r rc =
     (if DecryptionEnabled r
      then (case DecryptIfSealed rc (age_Decrypt cd (rp_AgeIdentities r)) of
              Inl err \<Rightarrow> Inl (Wrapf msg err)
            | Inr dr \<Rightarrow> Inr dr)
      else Inr rc)"

definition downloadSnapshotV3 ::
  "codec \<Rightarrow> Replica \<Rightarrow> ReplicaClientV3 \<Rightarrow> string \<Rightarrow> int \<Rightarrow> string \<Rightarrow> lfs \<Rightarrow> goerr option \<times> lfs" where
  "downloadSnapshotV3 cd r client generation index destPath s =
     (case OpenSnapshotV3 client generation index of
        Inl err \<Rightarrow> (Some err, s)
      | Inr rc \<Rightarrow>
     (case open_sealed ''age decrypt snapshot'' cd r rc of
        Inl err \<Rightarrow> (Some err, s)
      | Inr rd \<Rightarrow>
     (case lf_Create destPath s of
        (Some err, s) \<Rightarrow> (Some err, s)
      | (None, s) \<Rightarrow>
          (case (case io_Copy destPath 0 rd s of
                   (Some err, s) \<Rightarrow> (Some err, s)
                 | (None, s) \<Rightarrow> f_Sync destPath s) of
             (err, s) \<Rightarrow> (err, snd (f_Close destPath s))))))"

text \<open>SQLite through \<^verbatim>\<open>database/sql\<close>, on the database at a path: opening, executing a statement, a query with one text
  result, and closing.\<close>

record sqlite =
  sql_Open :: "string \<Rightarrow> lfs \<Rightarrow> goerr option \<times> lfs"
  sql_Exec :: "string \<Rightarrow> string \<Rightarrow> lfs \<Rightarrow> goerr option \<times> lfs"
  sql_QueryRow :: "string \<Rightarrow> string \<Rightarrow> lfs \<Rightarrow> (goerr + string) \<times> lfs"
  sql_Close :: "string \<Rightarrow> lfs \<Rightarrow> lfs"

definition checkpointV3 :: "sqlite \<Rightarrow> string \<Rightarrow> lfs \<Rightarrow> goerr option \<times> lfs" where
  "checkpointV3 sq dbPath s =
     (case sql_Open sq dbPath s of
        (Some err, s) \<Rightarrow> (Some err, s)
      | (None, s) \<Rightarrow>
          (case sql_Exec sq dbPath ''PRAGMA wal_checkpoint(TRUNCATE)'' s of (err, s) \<Rightarrow> (err, sql_Close sq dbPath s)))"

text \<open>The WAL file that is open is the position in it.\<close>

definition appendWALSegmentV3 ::
  "codec \<Rightarrow> Replica \<Rightarrow> ReplicaClientV3 \<Rightarrow> string \<Rightarrow> WALSegmentInfoV3 \<Rightarrow> string \<Rightarrow> nat option \<Rightarrow> lfs \<Rightarrow> goerr option \<times> nat option \<times> lfs" where
  "appendWALSegmentV3 cd r client generation seg walPath f s =
     (case OpenWALSegmentV3 client generation (sg_Index seg) (sg_Offset seg) of
        Inl err \<Rightarrow> (Some err, f, s)
      | Inr rc \<Rightarrow>
     (case open_sealed ''age decrypt WAL segment'' cd r rc of
        Inl err \<Rightarrow> (Some err, f, s)
      | Inr rd \<Rightarrow>
     (case f of
        None \<Rightarrow> (Some (Sentinel os_ErrInvalid), f, s)
      | Some pos \<Rightarrow>
          (case io_Copy walPath pos rd s of (err, s) \<Rightarrow> (err, Some (pos + length (fst rd)), s)))))"

definition applyLastWalFile ::
  "sqlite \<Rightarrow> string \<Rightarrow> string \<Rightarrow> nat option \<Rightarrow> lfs \<Rightarrow> goerr option \<times> nat option \<times> lfs" where
  "applyLastWalFile sq dbPath walPath f s =
     (case f of
        None \<Rightarrow> (None, None, s)
      | Some _ \<Rightarrow>
          (case f_Close walPath s of
             (Some err, s) \<Rightarrow> (Some err, f, s)
           | (None, s) \<Rightarrow> (case checkpointV3 sq dbPath s of (err, s) \<Rightarrow> (err, None, s))))"

fun wal_segments ::
  "sqlite \<Rightarrow> codec \<Rightarrow> Replica \<Rightarrow> ReplicaClientV3 \<Rightarrow> string \<Rightarrow> string \<Rightarrow> string \<Rightarrow> WALSegmentInfoV3 list \<Rightarrow>
   nat option \<Rightarrow> lfs \<Rightarrow> goerr option \<times> nat option \<times> lfs" where
  "wal_segments sq cd r client generation dbPath walPath [] f s = applyLastWalFile sq dbPath walPath f s"
| "wal_segments sq cd r client generation dbPath walPath (seg # segs) f s =
     (case (if sg_Offset seg = 0
            then (case applyLastWalFile sq dbPath walPath f s of
                    (Some err, f, s) \<Rightarrow> (Some err, f, s)
                  | (None, f, s) \<Rightarrow>
                      (case lf_OpenCreate walPath s of
                         (Some err, s) \<Rightarrow> (Some err, None, s)
                       | (None, s) \<Rightarrow> (None, Some 0, s)))
            else (None, f, s)) of
        (Some err, f, s) \<Rightarrow> (Some err, f, s)
      | (None, f, s) \<Rightarrow>
          (case appendWALSegmentV3 cd r client generation seg walPath f s of
             (Some err, f, s) \<Rightarrow> (Some (Wrapf ''write WAL segment'' err), f, s)
           | (None, f, s) \<Rightarrow> wal_segments sq cd r client generation dbPath walPath segs f s))"

definition applyWALSegmentsV3 ::
  "sqlite \<Rightarrow> codec \<Rightarrow> Replica \<Rightarrow> ReplicaClientV3 \<Rightarrow> string \<Rightarrow> WALSegmentInfoV3 list \<Rightarrow> string \<Rightarrow> lfs \<Rightarrow> goerr option \<times> lfs" where
  "applyWALSegmentsV3 sq cd r client generation segments dbPath s =
     (if segments = [] then (None, s)
      else let walPath = dbPath @ ''-wal'' in
        case wal_segments sq cd r client generation dbPath walPath segments None s of
          (err, f, s) \<Rightarrow> (err, if f \<noteq> None then snd (f_Close walPath s) else s))"

subsection \<open>Names\<close>

lemma lower_hex_val: "lower_hex c \<longleftrightarrow> (\<exists>v<16. c = hex_digit v)"
proof
  assume "lower_hex c"
  then obtain i where "i < length ''0123456789abcdef''" "c = ''0123456789abcdef'' ! i"
    unfolding lower_hex_def in_set_conv_nth by blast
  then show "\<exists>v<16. c = hex_digit v" unfolding hex_digit_def by (intro exI [of _ i]) simp
next
  assume "\<exists>v<16. c = hex_digit v"
  then obtain v where "v < 16" "c = hex_digit v" by blast
  then show "lower_hex c" unfolding lower_hex_def hex_digit_def by (simp only:) (rule nth_mem, simp)
qed

lemma lower_hex_fmt: "list_all lower_hex (fmt_hex w n)"
proof -
  have d: "lower_hex (hex_digit v)" if "v < 16" for v using that lower_hex_val by blast
  have "list_all lower_hex (to_hex n)"
    by (induction n rule: to_hex.induct) (subst to_hex.simps, auto intro: d)
  moreover have "lower_hex (CHR ''0'')" by (simp add: lower_hex_def)
  ultimately show ?thesis by (auto simp: fmt_hex_def Let_def list_all_iff)
qed

text \<open>A lower-case text of digits has a value, and the value determines the text of a given length.\<close>

lemma lower_hex_fold: "list_all lower_hex s \<Longrightarrow> \<exists>n < 16 ^ length s. hex_fold 0 s = Some n"
proof (induction s rule: rev_induct)
  case (snoc c s)
  then obtain n where n: "n < 16 ^ length s" "hex_fold 0 s = Some n" by auto
  obtain v where v: "v < 16" "c = hex_digit v" using snoc.prems lower_hex_val by auto
  have "n * 16 + v < 16 ^ length (s @ [c])" using n v by simp
  then show ?case using n v by (auto simp: hex_fold_append)
qed simp

lemma hex_fold_inj:
  "list_all lower_hex s \<Longrightarrow> list_all lower_hex t \<Longrightarrow> length s = length t \<Longrightarrow> hex_fold 0 s = hex_fold 0 t \<Longrightarrow> s = t"
proof (induction s arbitrary: t rule: rev_induct)
  case (snoc c s)
  then obtain d t' where t: "t = t' @ [d]" by (metis append_butlast_last_id length_0_conv length_append_singleton nat.distinct(1))
  obtain v where v: "v < 16" "c = hex_digit v" using snoc.prems lower_hex_val by auto
  obtain w where w: "w < 16" "d = hex_digit w" using snoc.prems t lower_hex_val by auto
  obtain m n where mn: "hex_fold 0 s = Some m" "hex_fold 0 t' = Some n"
    using lower_hex_fold snoc.prems t by (metis list_all_append)
  have "m * 16 + v = n * 16 + w" using snoc.prems(4) t mn v w by (simp add: hex_fold_append)
  then have "v = w" "m = n" using v w by presburger+
  moreover have "s = t'" using snoc.IH [of t'] snoc.prems t mn \<open>m = n\<close> by simp
  ultimately show ?case using t v w by simp
qed simp

lemma fmt_hex_value:
  assumes "list_all lower_hex s" "length s = w" "0 < w" "hex_fold 0 s = Some n"
  shows "fmt_hex w n = s"
proof -
  have n: "n < 16 ^ w" using lower_hex_fold [OF assms(1)] assms by auto
  have "hex_fold 0 (fmt_hex w n) = Some n" by (simp add: fmt_hex_def Let_def)
  then show ?thesis using hex_fold_inj [OF lower_hex_fmt assms(1)] n assms by simp
qed

lemma hex_field_fmt:
  assumes "0 < w"
  shows "hex_field w (fmt_int w n @ rest) = (if 0 \<le> n \<and> n < 16 ^ w then Some (fmt_int w n, rest) else hex_field w (fmt_int w n @ rest))"
    and "0 \<le> n \<Longrightarrow> n < 16 ^ w \<Longrightarrow> ParseInt16 (fmt_int w n) = n"
proof -
  have "nat n < 16 ^ w" if "0 \<le> n" "n < 16 ^ w" using that by (simp add: nat_less_iff)
  then show "hex_field w (fmt_int w n @ rest) = (if 0 \<le> n \<and> n < 16 ^ w then Some (fmt_int w n, rest) else hex_field w (fmt_int w n @ rest))"
    using assms lower_hex_fmt [of w "nat n"] by (auto simp: fmt_int_def hex_field_def)
  show "ParseInt16 (fmt_int w n) = n" if "0 \<le> n" "n < 16 ^ w"
    using that by (simp add: ParseInt16_def fmt_int_def fmt_hex_def Let_def)
qed

lemma ParseInt16_range:
  assumes "list_all lower_hex s" "length s = w" "0 < w"
  shows "0 \<le> ParseInt16 s \<and> ParseInt16 s < 16 ^ w \<and> fmt_int w (ParseInt16 s) = s"
proof -
  obtain n where n: "n < 16 ^ w" "hex_fold 0 s = Some n" using lower_hex_fold [OF assms(1)] assms(2) by auto
  have "int n < 16 ^ w" using n(1) by (metis of_nat_less_iff of_nat_numeral of_nat_power)
  then show ?thesis using n fmt_hex_value [OF assms n(2)] by (simp add: ParseInt16_def fmt_int_def)
qed

lemma ParseSnapshot_iff: "ParseSnapshotFilenameV3 name = Inr i \<longleftrightarrow> 0 \<le> i \<and> i < 2 ^ 32 \<and> name = FormatSnapshotFilenameV3 i"
proof
  assume "ParseSnapshotFilenameV3 name = Inr i"
  then have h: "length name \<ge> 8" "list_all lower_hex (take 8 name)" "drop 8 name = ''.snapshot.lz4''" "i = ParseInt16 (take 8 name)"
    by (auto simp: ParseSnapshotFilenameV3_def hex_field_def split: if_splits)
  have "fmt_int 8 i = take 8 name" "0 \<le> i" "i < 16 ^ 8" using ParseInt16_range [OF h(2), of 8] h(1,4) by auto
  then show "0 \<le> i \<and> i < 2 ^ 32 \<and> name = FormatSnapshotFilenameV3 i"
    using h(3) append_take_drop_id [of 8 name] by (simp add: FormatSnapshotFilenameV3_def)
next
  assume a: "0 \<le> i \<and> i < 2 ^ 32 \<and> name = FormatSnapshotFilenameV3 i"
  then have "hex_field 8 name = Some (fmt_int 8 i, ''.snapshot.lz4'')"
    using hex_field_fmt(1) [of 8 i "''.snapshot.lz4''"] by (simp add: FormatSnapshotFilenameV3_def)
  then show "ParseSnapshotFilenameV3 name = Inr i"
    using a hex_field_fmt(2) [of 8 i] by (simp add: ParseSnapshotFilenameV3_def)
qed

lemma ParseWALSegment_iff:
  "ParseWALSegmentFilenameV3 name = Inr (i, j) \<longleftrightarrow>
   0 \<le> i \<and> i < 2 ^ 32 \<and> 0 \<le> j \<and> j < 2 ^ 32 \<and> name = FormatWALSegmentFilenameV3 i j"
proof
  assume "ParseWALSegmentFilenameV3 name = Inr (i, j)"
  then obtain m1 rest m2 where h: "hex_field 8 name = Some (m1, CHR ''_'' # rest)" "hex_field 8 rest = Some (m2, ''.wal.lz4'')"
      "i = ParseInt16 m1" "j = ParseInt16 m2"
    by (auto simp: ParseWALSegmentFilenameV3_def split: option.splits list.splits prod.splits if_splits char.splits bool.splits)
  have m: "list_all lower_hex m1" "length m1 = 8" "list_all lower_hex m2" "length m2 = 8" "name = m1 @ CHR ''_'' # rest" "rest = m2 @ ''.wal.lz4''"
    using h(1,2) by (auto simp: hex_field_def split: if_splits) (metis append_take_drop_id)+
  show "0 \<le> i \<and> i < 2 ^ 32 \<and> 0 \<le> j \<and> j < 2 ^ 32 \<and> name = FormatWALSegmentFilenameV3 i j"
    using ParseInt16_range [OF m(1,2)] ParseInt16_range [OF m(3,4)] h(3,4) m(5,6) by (simp add: FormatWALSegmentFilenameV3_def)
next
  assume a: "0 \<le> i \<and> i < 2 ^ 32 \<and> 0 \<le> j \<and> j < 2 ^ 32 \<and> name = FormatWALSegmentFilenameV3 i j"
  let ?rest = "fmt_int 8 j @ ''.wal.lz4''"
  have "hex_field 8 name = Some (fmt_int 8 i, CHR ''_'' # ?rest)" "hex_field 8 ?rest = Some (fmt_int 8 j, ''.wal.lz4'')"
    using a hex_field_fmt(1) [of 8 i "CHR ''_'' # ?rest"] hex_field_fmt(1) [of 8 j "''.wal.lz4''"] by (simp_all add: FormatWALSegmentFilenameV3_def)
  then show "ParseWALSegmentFilenameV3 name = Inr (i, j)"
    using a hex_field_fmt(2) [of 8 i] hex_field_fmt(2) [of 8 j] by (simp add: ParseWALSegmentFilenameV3_def)
qed

text \<open>
  C36. The file names of the old format are read back exactly when index and offset fit into eight hexadecimal digits,
  and only the names that the formatting functions produce are accepted.
\<close>

theorem v3_filename_roundtrip:
  "(ParseSnapshotFilenameV3 (FormatSnapshotFilenameV3 i) = Inr i \<longleftrightarrow> 0 \<le> i \<and> i < 2 ^ 32) \<and>
   (ParseWALSegmentFilenameV3 (FormatWALSegmentFilenameV3 i j) = Inr (i, j) \<longleftrightarrow> 0 \<le> i \<and> i < 2 ^ 32 \<and> 0 \<le> j \<and> j < 2 ^ 32) \<and>
   (\<forall>name. is_ok (ParseSnapshotFilenameV3 name) = (name \<in> FormatSnapshotFilenameV3 ` {0..<2 ^ 32})) \<and>
   (\<forall>name. is_ok (ParseWALSegmentFilenameV3 name) = (name \<in> (\<lambda>(k, l). FormatWALSegmentFilenameV3 k l) ` ({0..<2 ^ 32} \<times> {0..<2 ^ 32})))"
proof -
  have s: "is_ok (ParseSnapshotFilenameV3 name) \<longleftrightarrow> (\<exists>k. ParseSnapshotFilenameV3 name = Inr k)" for name
    by (cases "ParseSnapshotFilenameV3 name") auto
  have w: "is_ok (ParseWALSegmentFilenameV3 name) \<longleftrightarrow> (\<exists>k l. ParseWALSegmentFilenameV3 name = Inr (k, l))" for name
    by (cases "ParseWALSegmentFilenameV3 name") auto
  show ?thesis unfolding s w ParseSnapshot_iff ParseWALSegment_iff by (auto; blast)
qed

subsection \<open>Sorting and selecting\<close>

lemma length_exchange [simp]: "length (exchange i j xs) = length xs"
  by (simp add: exchange_def)

lemma mset_exchange [simp]: "i < length xs \<Longrightarrow> j < length xs \<Longrightarrow> mset (exchange i j xs) = mset xs"
  by (simp add: exchange_def mset_swap)

definition settled :: "nat \<Rightarrow> SnapshotInfoV3 list \<Rightarrow> bool" where
  "settled i xs \<longleftrightarrow> (\<forall>a b. a < i \<longrightarrow> a < b \<longrightarrow> b < length xs \<longrightarrow> sn_CreatedAt (xs ! a) \<le> sn_CreatedAt (xs ! b))"

definition row_min :: "nat \<Rightarrow> nat \<Rightarrow> SnapshotInfoV3 list \<Rightarrow> bool" where
  "row_min i j xs \<longleftrightarrow> (\<forall>k. i < k \<longrightarrow> k < j \<longrightarrow> sn_CreatedAt (xs ! i) \<le> sn_CreatedAt (xs ! k))"

lemma exchange_nth:
  assumes "i < length xs" "j < length xs" "k < length xs"
  shows "exchange i j xs ! k =
     (if sn_CreatedAt (xs ! i) > sn_CreatedAt (xs ! j) then (if k = j then xs ! i else if k = i then xs ! j else xs ! k) else xs ! k)"
  using assms by (simp add: exchange_def nth_list_update)

lemma exchange_keeps:
  assumes "settled i xs" "row_min i j xs" "i < j" "j < length xs"
  shows "settled i (exchange i j xs) \<and> row_min i (Suc j) (exchange i j xs)"
proof -
  have i: "i < length xs" using assms by simp
  have low: "sn_CreatedAt (xs ! a) \<le> sn_CreatedAt (xs ! b)" if "a < i" "a < b" "b < length xs" for a b
    using assms(1) that by (simp add: settled_def)
  have "settled i (exchange i j xs)"
    unfolding settled_def using low assms(3,4) i by (auto simp: exchange_nth)
  moreover have "row_min i (Suc j) (exchange i j xs)"
    using assms(2-4) i by (auto simp: row_min_def exchange_nth less_Suc_eq)
  ultimately show ?thesis ..
qed

lemma exchange_loop:
  assumes "settled i xs" "row_min i j xs" "i < j" "j \<le> n" "n = length xs"
  shows "let ys = fold (exchange i) [j..<n] xs in settled i ys \<and> row_min i n ys \<and> mset ys = mset xs \<and> length ys = n"
  using assms
proof (induction "n - j" arbitrary: j xs)
  case (Suc d)
  then have j: "j < n" by simp
  have k: "settled i (exchange i j xs) \<and> row_min i (Suc j) (exchange i j xs)" using exchange_keeps Suc.prems j by blast
  have "[j..<n] = j # [Suc j..<n]" using j by (simp add: upt_conv_Cons)
  then show ?case using Suc.hyps(1) [of "Suc j" "exchange i j xs"] Suc.hyps(2) Suc.prems j k by (simp add: Let_def)
qed simp

lemma exchange_row_settles:
  assumes "settled i xs" "i < length xs"
  shows "settled (Suc i) (exchange_row i xs) \<and> mset (exchange_row i xs) = mset xs \<and> length (exchange_row i xs) = length xs"
proof -
  have "row_min i (Suc i) xs" by (simp add: row_min_def)
  then have "let ys = exchange_row i xs in settled i ys \<and> row_min i (length xs) ys \<and> mset ys = mset xs \<and> length ys = length xs"
    unfolding exchange_row_def using exchange_loop [OF assms(1), of "Suc i" "length xs"] assms(2) by simp
  then show ?thesis by (auto simp: Let_def settled_def row_min_def less_Suc_eq)
qed

lemma exchange_rows:
  assumes "settled i xs" "i \<le> n" "n \<le> length xs"
  shows "let ys = fold exchange_row [i..<n] xs in settled n ys \<and> mset ys = mset xs \<and> length ys = length xs"
  using assms
proof (induction "n - i" arbitrary: i xs)
  case (Suc d)
  then have i: "i < n" "i < length xs" by simp_all
  have "[i..<n] = i # [Suc i..<n]" using i by (simp add: upt_conv_Cons)
  then show ?case using Suc.hyps(1) [of "Suc i" "exchange_row i xs"] Suc.hyps(2) Suc.prems i exchange_row_settles [OF Suc.prems(1) i(2)]
    by (simp add: Let_def)
qed simp

lemma sortSnapshots_sorts:
  "sorted (map sn_CreatedAt (sortSnapshotsV3ByCreatedAt xs)) \<and> mset (sortSnapshotsV3ByCreatedAt xs) = mset xs"
proof -
  have "settled 0 xs" by (simp add: settled_def)
  then have s: "settled (length xs - 1) (sortSnapshotsV3ByCreatedAt xs)" "mset (sortSnapshotsV3ByCreatedAt xs) = mset xs"
      "length (sortSnapshotsV3ByCreatedAt xs) = length xs"
    using exchange_rows [of 0 xs "length xs - 1"] by (simp_all add: sortSnapshotsV3ByCreatedAt_def Let_def)
  have "sorted (map sn_CreatedAt (sortSnapshotsV3ByCreatedAt xs))"
    unfolding sorted_iff_nth_mono_less using s(1,3) by (auto simp: settled_def)
  with s(2) show ?thesis by blast
qed

lemma set_sortSnapshots [simp]: "set (sortSnapshotsV3ByCreatedAt xs) = set xs"
  using sortSnapshots_sorts [of xs] mset_eq_setD by blast

text \<open>What is the best snapshot of a set for a timestamp; zero stands for the latest.\<close>

definition usable :: "instant \<Rightarrow> SnapshotInfoV3 \<Rightarrow> bool" where
  "usable timestamp sn \<longleftrightarrow> timestamp = 0 \<or> sn_CreatedAt sn \<le> timestamp"

definition best_of :: "SnapshotInfoV3 set \<Rightarrow> instant \<Rightarrow> SnapshotInfoV3 option \<Rightarrow> bool" where
  "best_of S timestamp r \<longleftrightarrow>
     (case r of
        None \<Rightarrow> \<forall>sn\<in>S. \<not> usable timestamp sn
      | Some b \<Rightarrow> b \<in> S \<and> usable timestamp b \<and> (\<forall>sn\<in>S. usable timestamp sn \<longrightarrow> sn_CreatedAt sn \<le> sn_CreatedAt b))"

lemma find_last_best:
  "sorted (map sn_CreatedAt xs) \<Longrightarrow> best_of (set xs) timestamp (List.find (usable timestamp) (rev xs))"
proof (induction xs rule: rev_induct)
  case (snoc x xs)
  then have "sorted (map sn_CreatedAt xs)" "\<forall>y\<in>set xs. sn_CreatedAt y \<le> sn_CreatedAt x" by (auto simp: sorted_append)
  then show ?case using snoc.IH by (auto simp: best_of_def split: option.splits)
qed (simp add: best_of_def)

lemma findBest_best:
  assumes "sorted (map sn_CreatedAt xs)"
  shows "best_of (set xs) timestamp (findBestSnapshotV3 xs timestamp)"
proof -
  have "usable timestamp = (\<lambda>sn. \<not> sn_CreatedAt sn > timestamp)" if "timestamp \<noteq> 0"
    using that by (auto simp: usable_def fun_eq_iff)
  moreover have "List.find (usable 0) (rev xs) = (if xs = [] then None else Some (last xs))"
    by (cases xs rule: rev_cases) (simp_all add: usable_def)
  ultimately have "findBestSnapshotV3 xs timestamp = List.find (usable timestamp) (rev xs)"
    by (auto simp: findBestSnapshotV3_def)
  then show ?thesis using find_last_best [OF assms] by simp
qed

definition v3_snapshots :: "ReplicaClientV3 \<Rightarrow> string set \<Rightarrow> SnapshotInfoV3 set" where
  "v3_snapshots client gens = {sn. \<exists>gen\<in>gens. \<exists>l. SnapshotsV3 client gen = Inr l \<and> sn \<in> set l}"

lemma collect_snapshots_set: "collect_snapshots msg client gens = Inr l \<Longrightarrow> set l = v3_snapshots client (set gens)"
  by (induction gens arbitrary: l) (auto simp: v3_snapshots_def split: sum.splits)

lemma findBestV3_best:
  assumes "GenerationsV3 client = Inr gens" and "findBestV3SnapshotForTimestamp client timestamp = Inr r"
  shows "best_of (v3_snapshots client (set gens)) timestamp r"
proof (cases "gens = []")
  case True
  then show ?thesis using assms by (auto simp: findBestV3SnapshotForTimestamp_def best_of_def v3_snapshots_def)
next
  case False
  then obtain l where l: "collect_snapshots ''list v0.3.x snapshots for generation'' client gens = Inr l"
      "r = (if l = [] then None else findBestSnapshotV3 (sortSnapshotsV3ByCreatedAt l) timestamp)"
    using assms by (auto simp: findBestV3SnapshotForTimestamp_def split: sum.splits if_splits)
  then show ?thesis
    using findBest_best [of "sortSnapshotsV3ByCreatedAt l" timestamp] sortSnapshots_sorts [of l] collect_snapshots_set [OF l(1)]
    by (auto simp: best_of_def)
qed

subsection \<open>The choice of the format\<close>

text \<open>The creation times of the files of both formats.\<close>

definition v3_times :: "ReplicaClientV3 \<Rightarrow> string set \<Rightarrow> instant set" where
  "v3_times client gens = sn_CreatedAt ` v3_snapshots client gens \<union>
     sg_CreatedAt ` {sg. \<exists>gen\<in>gens. \<exists>l. WALSegmentsV3 client gen = Inr l \<and> sg \<in> set l}"

definition ltx_times :: "'s ReplicaClient \<Rightarrow> 's \<Rightarrow> instant set" where
  "ltx_times client s = CreatedAt ` (\<Union>level\<in>set (rev [0..SnapshotLevel]). listed client s False level)"

lemma bounds_generations_of:
  assumes "bounds_generations client gens b = Inr b'" and "bounds_of S b" and "0 \<notin> S" and "0 \<notin> v3_times client (set gens)"
  shows "bounds_of (S \<union> v3_times client (set gens)) b'"
  using assms
proof (induction gens arbitrary: S b)
  case Nil
  then show ?case by (simp add: v3_times_def v3_snapshots_def)
next
  case (Cons gen gens)
  obtain sns where sn: "SnapshotsV3 client gen = Inr sns" using Cons.prems(1) by (auto split: sum.splits)
  obtain sgs where sg: "WALSegmentsV3 client gen = Inr sgs" using Cons.prems(1) sn by (auto simp: Let_def split: sum.splits)
  let ?t = "map sn_CreatedAt sns" and ?u = "map sg_CreatedAt sgs"
  have T: "v3_times client (set (gen # gens)) = set ?t \<union> set ?u \<union> v3_times client (set gens)"
  proof -
    have "v3_snapshots client (set (gen # gens)) = set sns \<union> v3_snapshots client (set gens)" using sn by (auto simp: v3_snapshots_def)
    moreover have "{sg. \<exists>g\<in>set (gen # gens). \<exists>l. WALSegmentsV3 client g = Inr l \<and> sg \<in> set l} =
        set sgs \<union> {sg. \<exists>g\<in>set gens. \<exists>l. WALSegmentsV3 client g = Inr l \<and> sg \<in> set l}" using sg by auto
    ultimately show ?thesis by (simp only: v3_times_def image_Un set_map) blast
  qed
  have z: "0 \<notin> set ?t" "0 \<notin> set ?u" "0 \<notin> v3_times client (set gens)" using Cons.prems(4) T by auto
  have 1: "bounds_of (S \<union> set ?t \<union> set ?u) (fold extend_bounds ?u (fold extend_bounds ?t b))"
    using fold_bounds_of [OF fold_bounds_of [OF Cons.prems(2,3) z(1)] _ z(2)] Cons.prems(3) z(1) by simp
  have "bounds_generations client gens (fold extend_bounds ?u (fold extend_bounds ?t b)) = Inr b'"
    using Cons.prems(1) sn sg by (simp add: Let_def fold_map comp_def)
  from Cons.IH [OF this 1] show ?case using Cons.prems(3) z T by (simp add: Un_assoc)
qed

lemma bounds_of_empty_iff: "bounds_of S b \<Longrightarrow> 0 \<notin> S \<Longrightarrow> snd b = 0 \<longleftrightarrow> S = {}"
  by (cases b) (auto simp: bounds_of_def split: if_splits)

lemma bounds_of_less: "bounds_of S b \<Longrightarrow> bounds_of T c \<Longrightarrow> S \<noteq> {} \<Longrightarrow> T \<noteq> {} \<Longrightarrow> snd b < snd c \<longleftrightarrow> (\<exists>t\<in>T. \<forall>u\<in>S. u < t)"
proof -
  assume a: "bounds_of S b" "bounds_of T c" "S \<noteq> {}" "T \<noteq> {}"
  then have "snd b \<in> S" "\<forall>u\<in>S. u \<le> snd b" "snd c \<in> T" "\<forall>t\<in>T. t \<le> snd c" by (auto simp: bounds_of_def)
  then show ?thesis by (meson le_less_trans less_le_trans)
qed

lemma best_of_unique:
  "best_of S ts r \<Longrightarrow> best_of S ts (Some b) \<Longrightarrow> \<exists>c. r = Some c \<and> sn_CreatedAt c = sn_CreatedAt b"
  by (cases r) (force simp: best_of_def intro: antisym)+

text \<open>
  C37. The format of a restore: the old format is used exactly when it has a backup and there is no LTX backup, or,
  without a timestamp, its latest backup is later than every LTX file, or, with one, its best snapshot for the timestamp
  is later than the LTX snapshot found for it, or there is none.
\<close>

theorem v3_restore_choice:
  assumes "GenerationsV3 v3 = Inr gens" and "shouldUseV3Restore client s v3 timestamp = Inr useV3"
    and "0 \<notin> v3_times v3 (set gens)" and "0 \<notin> ltx_times client s"
  shows "useV3 \<longleftrightarrow> v3_times v3 (set gens) \<noteq> {} \<and>
           (ltx_times client s = {} \<or>
            (if timestamp = 0 then \<exists>t\<in>v3_times v3 (set gens). \<forall>u\<in>ltx_times client s. u < t
             else \<exists>b. best_of (v3_snapshots v3 (set gens)) timestamp (Some b) \<and>
                      (case findBestLTXSnapshotForTimestamp client s timestamp of
                         Inr None \<Rightarrow> True | Inr (Some i) \<Rightarrow> CreatedAt i < sn_CreatedAt b | Inl _ \<Rightarrow> False)))"
proof -
  let ?T = "v3_times v3 (set gens)" and ?L = "ltx_times client s"
  obtain vb where vb: "TimeBoundsV3 v3 = Inr vb" using assms(2) by (auto simp: shouldUseV3Restore_def split: sum.splits)
  obtain lb where lb: "TimeBounds client s = (lb, None)"
    using assms(2) vb by (cases "TimeBounds client s") (auto simp: shouldUseV3Restore_def split: option.splits prod.splits)
  have bv: "bounds_of ?T vb"
    using bounds_generations_of [of v3 gens "(0, 0)" vb "{}"] vb assms(1,3) by (simp add: TimeBoundsV3_def bounds_of_def)
  have "bounds_of ({} \<union> ?L) lb"
    unfolding ltx_times_def
  proof (rule bounds_levels_of)
    show "bounds_levels client s (rev [0..SnapshotLevel]) (0, 0) = (lb, None)" using lb by (simp add: TimeBounds_def)
    show "\<forall>l\<in>set (rev [0..SnapshotLevel]). \<forall>i\<in>listed client s False l. CreatedAt i \<noteq> 0"
      using assms(4) unfolding ltx_times_def by (metis UN_I image_eqI)
  qed (simp_all add: bounds_of_def)
  then have bl: "bounds_of ?L lb" by simp
  note ev = bounds_of_empty_iff [OF bv assms(3)] and el = bounds_of_empty_iff [OF bl assms(4)]
  have run: "useV3 = (if snd vb = 0 then False else if snd lb = 0 then True else useV3)" "timestamp = 0 \<Longrightarrow> snd vb \<noteq> 0 \<Longrightarrow> snd lb \<noteq> 0 \<Longrightarrow> useV3 = (snd lb < snd vb)"
    using assms(2) vb lb by (auto simp: shouldUseV3Restore_def split: prod.splits if_splits)
  show ?thesis
  proof (cases "timestamp = 0 \<or> snd vb = 0 \<or> snd lb = 0")
    case True
    then show ?thesis using run ev el bounds_of_less [OF bl bv] by (auto split: if_splits)
  next
    case False
    then obtain r l where r: "findBestV3SnapshotForTimestamp v3 timestamp = Inr r" "findBestLTXSnapshotForTimestamp client s timestamp = Inr l"
        "useV3 = (case r of None \<Rightarrow> False | Some v3 \<Rightarrow> (case l of None \<Rightarrow> True | Some ltx \<Rightarrow> sn_CreatedAt v3 > CreatedAt ltx))"
      using assms(2) vb lb by (auto simp: shouldUseV3Restore_def split: prod.splits sum.splits)
    note best = findBestV3_best [OF assms(1) r(1)]
    have "useV3 \<longleftrightarrow> (\<exists>b. best_of (v3_snapshots v3 (set gens)) timestamp (Some b) \<and> (case l of None \<Rightarrow> True | Some i \<Rightarrow> CreatedAt i < sn_CreatedAt b))"
    proof (cases r)
      case None
      then have "\<not> best_of (v3_snapshots v3 (set gens)) timestamp (Some b)" for b using best_of_unique [OF best, of b] by blast
      then show ?thesis using r(3) None by simp
    next
      case (Some c)
      have eq: "sn_CreatedAt b = sn_CreatedAt c" if "best_of (v3_snapshots v3 (set gens)) timestamp (Some b)" for b
        using best_of_unique [OF best that] Some by simp
      have "useV3 \<longleftrightarrow> (case l of None \<Rightarrow> True | Some i \<Rightarrow> CreatedAt i < sn_CreatedAt c)" using r(3) Some by simp
      moreover have "(case l of None \<Rightarrow> True | Some i \<Rightarrow> CreatedAt i < sn_CreatedAt b) = (case l of None \<Rightarrow> True | Some i \<Rightarrow> CreatedAt i < sn_CreatedAt c)"
        if "best_of (v3_snapshots v3 (set gens)) timestamp (Some b)" for b
        unfolding eq [OF that] ..
      ultimately show ?thesis using best [unfolded Some] by blast
    qed
    then show ?thesis using False ev el r(2) by (simp split: option.split)
  qed
qed

text \<open>A backup in the old format with one generation: a snapshot and two segments of its WAL, listed out of order.\<close>

definition test_gen :: string where
  "test_gen = ''0123456789abcdef''"

definition test_v3fs :: v3fs where
  "test_v3fs = \<lparr>
     v3_ReadDir = (\<lambda>p.
       if p = ''r/generations'' then Inr [\<lparr>de_Name = test_gen, de_IsDir = True, de_Info = Inr (0, 7)\<rparr>]
       else if p = ''r/generations/'' @ test_gen @ ''/snapshots''
       then Inr [\<lparr>de_Name = ''0000000a.snapshot.lz4'', de_IsDir = False, de_Info = Inr (3, 7)\<rparr>]
       else if p = ''r/generations/'' @ test_gen @ ''/wal''
       then Inr [\<lparr>de_Name = ''0000000a_00000020.wal.lz4'', de_IsDir = False, de_Info = Inr (2, 9)\<rparr>,
                 \<lparr>de_Name = ''0000000a_00000000.wal.lz4'', de_IsDir = False, de_Info = Inr (2, 8)\<rparr>]
       else Inl (not_exist ''open'')),
     v3_Open = (\<lambda>p. Inr (go_bytes ''x'', None))\<rparr>"

abbreviation test_v3 :: ReplicaClientV3 where
  "test_v3 \<equiv> file_client_v3 id ''r'' test_v3fs"

theorem v3_restore_choice_witness:
  "\<exists>useV3. shouldUseV3Restore doc_client (mem_fs [((0, 1, 1), ([1], 5))]) test_v3 0 = Inr useV3 \<and> useV3"
proof -
  define s where "s = mem_fs [((0, 1, 1), ([1], 5))]"
  have run: "shouldUseV3Restore doc_client s test_v3 0 = Inr True" unfolding s_def by code_simp
  have gens: "GenerationsV3 test_v3 = Inr [test_gen]" by code_simp
  have sn: "SnapshotsV3 test_v3 test_gen = Inr [\<lparr>sn_Generation = test_gen, sn_Index = 10, sn_Size = 3, sn_CreatedAt = 7\<rparr>]" by code_simp
  have sg: "WALSegmentsV3 test_v3 test_gen = Inr
      [\<lparr>sg_Generation = test_gen, sg_Index = 10, sg_Offset = 0, sg_Size = 2, sg_CreatedAt = 8\<rparr>,
       \<lparr>sg_Generation = test_gen, sg_Index = 10, sg_Offset = 32, sg_Size = 2, sg_CreatedAt = 9\<rparr>]" by code_simp
  have T: "0 \<notin> v3_times test_v3 (set [test_gen])" by (auto simp: v3_times_def v3_snapshots_def sn sg)
  have "file_objects doc_FormatFilename s = map_of [((0, 1, 1), ([1], 5))]" unfolding s_def by (rule mem_fs_objects) simp
  moreover have inv: "fs_inv doc_FormatFilename doc_ParseFilename s" unfolding s_def by (rule fs_inv_mem) simp
  ultimately have f: "CreatedAt i = 5" if i: "i \<in> listed doc_client s False level" for i level
  proof -
    obtain it where "LTXFiles doc_client s level 0 False = Inr it" "i \<in> set (iter_items it)"
      using i by (auto simp: listed_def split: sum.splits)
    from replica_client.list_items_any [OF doc_client_contract inv this]
    obtain bs where "file_objects doc_FormatFilename s (key i) = Some (bs, CreatedAt i)" by blast
    with \<open>file_objects doc_FormatFilename s = map_of [((0, 1, 1), ([1], 5))]\<close> show ?thesis by (simp split: if_splits)
  qed
  then have L: "0 \<notin> ltx_times doc_client s" by (force simp: ltx_times_def)
  have "True \<longleftrightarrow> v3_times test_v3 (set [test_gen]) \<noteq> {} \<and> (ltx_times doc_client s = {} \<or> (\<exists>t\<in>v3_times test_v3 (set [test_gen]). \<forall>u\<in>ltx_times doc_client s. u < t))"
    using v3_restore_choice [OF gens run T L] by simp
  then show ?thesis using run unfolding s_def by blast
qed

subsection \<open>The contract of the client\<close>

text \<open>What \<open>ReplicaClientV3\<close> documents: listings are in order, and entries belong to the generation they are listed for.\<close>

locale v3_backup =
  fixes client :: ReplicaClientV3
  assumes generations_sorted: "GenerationsV3 client = Inr gens \<Longrightarrow> sorted gens \<and> (\<forall>g\<in>set gens. IsGenerationIDV3 g)"
    and snapshots_sorted: "SnapshotsV3 client gen = Inr sns \<Longrightarrow> sorted (map sn_Index sns) \<and> (\<forall>sn\<in>set sns. sn_Generation sn = gen)"
    and segments_sorted: "WALSegmentsV3 client gen = Inr sgs \<Longrightarrow>
      sorted (map (\<lambda>sg. (sg_Index sg, sg_Offset sg)) sgs) \<and> (\<forall>sg\<in>set sgs. sg_Generation sg = gen)"
begin

lemma filtered_segments:
  assumes "WALSegmentsV3 client gen = Inr sgs"
  shows "sorted (map (\<lambda>sg. (sg_Index sg, sg_Offset sg)) (filterWALSegmentsV3 sgs index timestamp)) \<and>
         set (filterWALSegmentsV3 sgs index timestamp) = {sg \<in> set sgs. index \<le> sg_Index sg \<and> (timestamp = 0 \<or> sg_CreatedAt sg \<le> timestamp)}"
  using segments_sorted [OF assms] by (auto simp: filterWALSegmentsV3_def sorted_filter)

end

lemma snapshot_entries_gen: "snapshot_entries gen es = Inr sns \<Longrightarrow> sn \<in> set sns \<Longrightarrow> sn_Generation sn = gen"
  by (induction es arbitrary: sns) (auto split: if_splits sum.splits)

lemma segment_entries_gen: "segment_entries gen es = Inr sgs \<Longrightarrow> sg \<in> set sgs \<Longrightarrow> sg_Generation sg = gen"
  by (induction es arbitrary: sgs) (auto split: if_splits sum.splits)

interpretation file_v3: v3_backup "file_client_v3 lz4 root fs" for lz4 root fs
proof unfold_locales
  fix gens gen sns sgs
  show "GenerationsV3 (file_client_v3 lz4 root fs) = Inr gens \<Longrightarrow> sorted gens \<and> (\<forall>g\<in>set gens. IsGenerationIDV3 g)"
    by (auto simp: file_client_v3_def file_GenerationsV3_def split: sum.splits if_splits)
  show "SnapshotsV3 (file_client_v3 lz4 root fs) gen = Inr sns \<Longrightarrow> sorted (map sn_Index sns) \<and> (\<forall>sn\<in>set sns. sn_Generation sn = gen)"
    by (auto simp: file_client_v3_def file_SnapshotsV3_def dest: snapshot_entries_gen split: sum.splits if_splits)
  show "WALSegmentsV3 (file_client_v3 lz4 root fs) gen = Inr sgs \<Longrightarrow>
      sorted (map (\<lambda>sg. (sg_Index sg, sg_Offset sg)) sgs) \<and> (\<forall>sg\<in>set sgs. sg_Generation sg = gen)"
    by (auto simp: file_client_v3_def file_WALSegmentsV3_def dest: segment_entries_gen split: sum.splits if_splits)
qed

end
