(* ===== verification/Restore.thy ===== *)
theory Restore
  imports Follow V3
begin

text \<open>
  Restoring a database (\<^verbatim>\<open>Restore\<close> and \<^verbatim>\<open>RestoreV3\<close> of \<^verbatim>\<open>src/replica.go\<close>, the options of \<^verbatim>\<open>src/db.go\<close>): the checks of the options,
  the choice of the format, the readers of the plan, the temporary file, the rename and the integrity check. What is
  left to other packages is in \<open>restore_env\<close>.
\<close>

definition DefaultRestoreParallelism :: int where
  "DefaultRestoreParallelism = 8"

definition DefaultFollowInterval :: duration where
  "DefaultFollowInterval = 1 * second"

definition IntegrityCheckNone :: int where
  "IntegrityCheckNone = 0"

definition IntegrityCheckQuick :: int where
  "IntegrityCheckQuick = 1"

definition IntegrityCheckFull :: int where
  "IntegrityCheckFull = 2"

record RestoreOptions =
  OutputPath :: string
  opt_TXID :: txid
  Timestamp :: instant
  Parallelism :: int
  opt_Follow :: bool
  FollowInterval :: duration
  IntegrityCheck :: int

definition NewRestoreOptions :: RestoreOptions where
  "NewRestoreOptions = \<lparr>OutputPath = [], opt_TXID = 0, Timestamp = 0, Parallelism = DefaultRestoreParallelism, opt_Follow = False,
     FollowInterval = DefaultFollowInterval, IntegrityCheck = IntegrityCheckNone\<rparr>"

subsection \<open>The integrity check\<close>

definition checkIntegrity :: "sqlite \<Rightarrow> string \<Rightarrow> int \<Rightarrow> lfs \<Rightarrow> goerr option \<times> lfs" where
  "checkIntegrity sq dbPath mode s =
     (if mode = IntegrityCheckNone then (None, s)
      else case sql_Open sq dbPath s of
        (Some err, s) \<Rightarrow> (Some (Wrapf ''open database for integrity check'' err), s)
      | (None, s) \<Rightarrow>
          if mode \<noteq> IntegrityCheckQuick \<and> mode \<noteq> IntegrityCheckFull
          then (Some (Errorf ''unsupported integrity check mode''), sql_Close sq dbPath s)
          else let pragma = (if mode = IntegrityCheckQuick then ''quick_check'' else ''integrity_check'') in
            case sql_QueryRow sq dbPath (''PRAGMA '' @ pragma) s of
              (Inl err, s) \<Rightarrow> (Some (Wrapf ''integrity check'' err), sql_Close sq dbPath s)
            | (Inr result, s) \<Rightarrow>
                if result \<noteq> ''ok'' then (Some (Errorf ''integrity check failed''), sql_Close sq dbPath s)
                else (None, sql_Close sq dbPath (snd (lf_Remove (dbPath @ ''-wal'') (snd (lf_Remove (dbPath @ ''-shm'') s))))))"

text \<open>The check after the rename: a database that fails is removed, unless the context is done.\<close>

definition finish_restore :: "sqlite \<Rightarrow> bool \<Rightarrow> string \<Rightarrow> int \<Rightarrow> lfs \<Rightarrow> goerr option \<times> lfs" where
  "finish_restore sq ctx_done outputPath mode s =
     (if mode = IntegrityCheckNone then (None, s)
      else case checkIntegrity sq outputPath mode s of
        (None, s) \<Rightarrow> (None, s)
      | (Some err, s) \<Rightarrow>
          (Some (Wrapf ''post-restore integrity check'' err),
           if ctx_done then s
           else snd (lf_Remove (outputPath @ ''-wal'') (snd (lf_Remove (outputPath @ ''-shm'') (snd (lf_Remove outputPath s)))))))"

subsection \<open>The readers of a plan\<close>

text \<open>
  A stream as a connection, and reading a connection to its end with buffers of \<open>n\<close> bytes: the stream that the reader of
  the whole file sees. A connection that breaks again and again after some bytes may never end.
\<close>

definition stream_Read :: "stream \<Rightarrow> nat \<Rightarrow> (byte list \<times> goerr option) \<times> stream" where
  "stream_Read c n =
     (if fst c = [] then (([], case snd c of None \<Rightarrow> Some (Sentinel io_EOF) | Some e \<Rightarrow> Some e), c)
      else ((take n (fst c), None), (drop n (fst c), snd c)))"

partial_function (option) drain ::
  "('c \<Rightarrow> nat \<Rightarrow> (byte list \<times> goerr option) \<times> 'c) \<Rightarrow> nat \<Rightarrow> 'c \<Rightarrow> stream option" where
  "drain rd n c =
     (case rd c n of
        ((bs, Some e), c') \<Rightarrow> Some (bs, if e = Sentinel io_EOF then None else Some e)
      | ((bs, None), c') \<Rightarrow> Option.bind (drain rd n c') (\<lambda>(bs', e). Some (bs @ bs', e)))"

declare drain.simps [code]

record 's restore_env =
  re_client :: "'s ReplicaClient"
  re_store :: 's
  re_v3 :: "ReplicaClientV3 option"
  re_replica :: Replica
  re_codec :: codec
  re_sqlite :: sqlite
  re_MaxTXID :: "FileInfo list \<Rightarrow> txid"
  re_HeaderSize :: nat
  re_image :: "stream list \<Rightarrow> byte list \<times> goerr option"
  re_buffer :: nat
  re_ctx_done :: bool

text \<open>
  \<open>re_image\<close> is the LTX compactor over the readers with the decoder that writes the database: the bytes it has written
  and the error it ends with. \<open>re_MaxTXID\<close> and \<open>re_HeaderSize\<close> are of the LTX library too.
\<close>

definition plan_reader :: "'s restore_env \<Rightarrow> FileInfo \<Rightarrow> stream \<Rightarrow> stream option" where
  "plan_reader env info f =
     (if DecryptionEnabled (re_replica env) then Some f
      else drain (rr_Read stream_Read
                    (\<lambda>s off. (OpenLTXFile (re_client env) s (FLevel info) (MinTXID info) (MaxTXID info) (int off) 0, s)))
             (re_buffer env)
             \<lparr>rr_size = int (FSize info), rr_offset = 0, rr_rc = Some f, rr_client = re_store env\<rparr>)"

fun plan_readers :: "'s restore_env \<Rightarrow> FileInfo list \<Rightarrow> (goerr + stream list) option" where
  "plan_readers env [] = Some (Inr [])"
| "plan_readers env (info # infos) =
     (if FSize info < re_HeaderSize env then Some (Inl (Errorf ''invalid ltx file''))
      else case rp_OpenLTXFile (re_codec env) (re_replica env) (re_client env) (re_store env)
                  (FLevel info) (MinTXID info) (MaxTXID info) 0 0 of
        Inl err \<Rightarrow> Some (Inl (Wrapf ''open ltx file'' err))
      | Inr f \<Rightarrow>
          Option.bind (plan_reader env info f) (\<lambda>rd.
          Option.bind (plan_readers env infos) (\<lambda>r.
            Some (case r of Inl err \<Rightarrow> Inl err | Inr rdrs \<Rightarrow> Inr (rd # rdrs)))))"

subsection \<open>Restore from LTX files\<close>

text \<open>The result of a restore: it has returned, or it enters follow mode at a TXID.\<close>

datatype outcome = Returned "goerr option" | EnterFollow txid

definition write_image :: "byte list \<times> goerr option \<Rightarrow> string \<Rightarrow> string \<Rightarrow> lfs \<Rightarrow> goerr option \<times> lfs" where
  "write_image img tmpOutputPath outputPath s =
     (case io_Copy tmpOutputPath 0 img s of
        (Some err, s) \<Rightarrow> (Some (Wrapf ''decode database'' err), s)
      | (None, s) \<Rightarrow>
     (case f_Sync tmpOutputPath s of
        (Some err, s) \<Rightarrow> (Some err, s)
      | (None, s) \<Rightarrow>
     (case f_Close tmpOutputPath s of
        (Some err, s) \<Rightarrow> (Some err, s)
      | (None, s) \<Rightarrow> lf_Rename tmpOutputPath outputPath s)))"

definition restore_write :: "txid_text \<Rightarrow> 's restore_env \<Rightarrow> RestoreOptions \<Rightarrow> stream list \<Rightarrow> txid \<Rightarrow> lfs \<Rightarrow> outcome \<times> lfs" where
  "restore_write tt env opt rdrs maxTXID s =
     (case lf_MkdirAll (OutputPath opt) s of
        (Some err, s) \<Rightarrow> (Returned (Some (Wrapf ''create parent directory'' err)), s)
      | (None, s) \<Rightarrow>
          let tmpOutputPath = OutputPath opt @ ''.tmp'' in
     (case lf_Create tmpOutputPath s of
        (Some err, s) \<Rightarrow> (Returned (Some (Wrapf ''create temp database path'' err)), s)
      | (None, s) \<Rightarrow>
     (case write_image (re_image env rdrs) tmpOutputPath (OutputPath opt) s of
        (Some err, s) \<Rightarrow> (Returned (Some err), snd (f_Close tmpOutputPath s))
      | (None, s) \<Rightarrow>
     (case finish_restore (re_sqlite env) (re_ctx_done env) (OutputPath opt) (IntegrityCheck opt) s of
        (Some err, s) \<Rightarrow> (Returned (Some err), snd (f_Close tmpOutputPath s))
      | (None, s) \<Rightarrow>
          if opt_Follow opt
          then (case WriteTXIDFile tt (OutputPath opt) maxTXID s of
                  (Some err, s) \<Rightarrow> (Returned (Some (Wrapf ''write initial txid file'' err)), snd (f_Close tmpOutputPath s))
                | (None, s) \<Rightarrow> (EnterFollow maxTXID, s))
          else (Returned None, snd (f_Close tmpOutputPath s))))))"

definition restore_ltx :: "txid_text \<Rightarrow> 's restore_env \<Rightarrow> RestoreOptions \<Rightarrow> lfs \<Rightarrow> (outcome \<times> lfs) option" where
  "restore_ltx tt env opt s =
     (case CalcRestorePlan (re_MaxTXID env) (re_client env) (re_store env) (opt_TXID opt) (Timestamp opt) of
        Inl err \<Rightarrow> Some (Returned (Some (Wrapf ''cannot calc restore plan'' err)), s)
      | Inr infos \<Rightarrow>
          Option.bind (plan_readers env infos) (\<lambda>r.
            Some (case r of
                    Inl err \<Rightarrow> (Returned (Some err), s)
                  | Inr rdrs \<Rightarrow>
                      if rdrs = [] then (Returned (Some (Errorf ''no matching backup files available'')), s)
                      else restore_write tt env opt rdrs (MaxTXID (last infos)) s)))"

subsection \<open>Restore from the old format\<close>

definition valid_integrity :: "int \<Rightarrow> bool" where
  "valid_integrity mode \<longleftrightarrow> mode = IntegrityCheckNone \<or> mode = IntegrityCheckQuick \<or> mode = IntegrityCheckFull"

text \<open>The selected snapshot and its segments, or the error.\<close>

definition choose_v3 :: "ReplicaClientV3 \<Rightarrow> instant \<Rightarrow> goerr + SnapshotInfoV3 \<times> WALSegmentInfoV3 list" where
  "choose_v3 client timestamp =
     (case GenerationsV3 client of
        Inl err \<Rightarrow> Inl (Wrapf ''list generations'' err)
      | Inr generations \<Rightarrow>
          if generations = [] then Inl (Sentinel ErrNoSnapshots)
          else case collect_snapshots ''list snapshots for generation'' client generations of
            Inl err \<Rightarrow> Inl err
          | Inr allSnapshots \<Rightarrow>
              if allSnapshots = [] then Inl (Sentinel ErrNoSnapshots)
              else case findBestSnapshotV3 (sortSnapshotsV3ByCreatedAt allSnapshots) timestamp of
                None \<Rightarrow> Inl (Sentinel ErrNoSnapshots)
              | Some snapshot \<Rightarrow>
                  (case WALSegmentsV3 client (sn_Generation snapshot) of
                     Inl err \<Rightarrow> Inl (Wrapf ''list WAL segments'' err)
                   | Inr segments \<Rightarrow> Inr (snapshot, filterWALSegmentsV3 segments (sn_Index snapshot) timestamp)))"

text \<open>The part of \<open>RestoreV3\<close> after which the temporary file is removed in any case.\<close>

definition restore_v3_files ::
  "'s restore_env \<Rightarrow> ReplicaClientV3 \<Rightarrow> RestoreOptions \<Rightarrow> SnapshotInfoV3 \<Rightarrow> WALSegmentInfoV3 list \<Rightarrow> lfs \<Rightarrow> goerr option \<times> lfs" where
  "restore_v3_files env client opt snapshot segments s =
     (let tmpPath = OutputPath opt @ ''.tmp'' in
      case downloadSnapshotV3 (re_codec env) (re_replica env) client (sn_Generation snapshot) (sn_Index snapshot) tmpPath s of
        (Some err, s) \<Rightarrow> (Some (Wrapf ''download snapshot'' err), s)
      | (None, s) \<Rightarrow>
     (case applyWALSegmentsV3 (re_sqlite env) (re_codec env) (re_replica env) client (sn_Generation snapshot) segments tmpPath s of
        (Some err, s) \<Rightarrow> (Some (Wrapf ''apply WAL segments'' err), s)
      | (None, s) \<Rightarrow>
     (case lf_Rename tmpPath (OutputPath opt) s of
        (Some err, s) \<Rightarrow> (Some (Wrapf ''rename to output path'' err), s)
      | (None, s) \<Rightarrow> finish_restore (re_sqlite env) (re_ctx_done env) (OutputPath opt) (IntegrityCheck opt) s)))"

definition RestoreV3 :: "'s restore_env \<Rightarrow> RestoreOptions \<Rightarrow> lfs \<Rightarrow> goerr option \<times> lfs" where
  "RestoreV3 env opt s =
     (case re_v3 env of
        None \<Rightarrow> (Some (Errorf ''replica client does not support v0.3.x restore''), s)
      | Some client \<Rightarrow>
          if OutputPath opt = [] then (Some (Errorf ''output path required''), s)
          else if \<not> valid_integrity (IntegrityCheck opt) then (Some (Errorf ''unsupported integrity check mode''), s)
          else
     (case lf_Stat (OutputPath opt) s of
        (None, s) \<Rightarrow> (Some (Errorf ''cannot restore, output path already exists''), s)
      | (Some err, s) \<Rightarrow>
          if \<not> os_IsNotExist err then (Some err, s)
          else
     (case choose_v3 client (Timestamp opt) of
        Inl err \<Rightarrow> (Some err, s)
      | Inr (snapshot, segments) \<Rightarrow>
     (case lf_MkdirAll (OutputPath opt) s of
        (Some err, s) \<Rightarrow> (Some (Wrapf ''create parent directory'' err), s)
      | (None, s) \<Rightarrow>
          (case restore_v3_files env client opt snapshot segments s of
             (err, s) \<Rightarrow> (err, snd (lf_Remove (OutputPath opt @ ''.tmp'') s)))))))"

subsection \<open>Restore\<close>

text \<open>Follow mode on a database that exists: the process was stopped and resumes at the TXID of the sidecar.\<close>

definition resume_follow :: "txid_text \<Rightarrow> 's restore_env \<Rightarrow> RestoreOptions \<Rightarrow> lfs \<Rightarrow> outcome \<times> lfs" where
  "resume_follow tt env opt s =
     (case ReadTXIDFile tt (OutputPath opt) s of
        (Inl err, s) \<Rightarrow> (Returned (Some (Wrapf ''read txid file for crash recovery'' err)), s)
      | (Inr txid, s) \<Rightarrow>
          if txid = 0 then (Returned (Some (Errorf ''cannot resume follow mode: no -txid file'')), s)
          else
     (case LTXFiles (re_client env) (re_store env) SnapshotLevel 0 False of
        Inl err \<Rightarrow> (Returned (Some (Wrapf ''cannot validate saved TXID for crash recovery'' err)), s)
      | Inr it \<Rightarrow>
     (case iter_err it of
        Some err \<Rightarrow> (Returned (Some (Wrapf ''iterate snapshots for crash recovery validation'' err)), s)
      | None \<Rightarrow>
          if iter_items it = [] then (EnterFollow txid, s)
          else let latestSnapshot = last (iter_items it) in
            if MinTXID latestSnapshot > txid
            then (Returned (Some (Errorf ''cannot resume follow mode: saved TXID is behind the earliest snapshot'')), s)
            else if txid > MaxTXID latestSnapshot
            then (Returned (Some (Errorf ''cannot resume follow mode: saved TXID is ahead of latest snapshot'')), s)
            else (EnterFollow txid, s))))"

definition check_options :: "RestoreOptions \<Rightarrow> goerr option" where
  "check_options opt =
     (if OutputPath opt = [] then Some (Errorf ''output path required'')
      else if opt_TXID opt \<noteq> 0 \<and> Timestamp opt \<noteq> 0 then Some (Errorf ''cannot specify index & timestamp to restore'')
      else if opt_Follow opt \<and> opt_TXID opt \<noteq> 0 then Some (Errorf ''cannot use follow mode with -txid'')
      else if opt_Follow opt \<and> Timestamp opt \<noteq> 0 then Some (Errorf ''cannot use follow mode with -timestamp'')
      else if \<not> valid_integrity (IntegrityCheck opt) then Some (Errorf ''unsupported integrity check mode'')
      else None)"

text \<open>The part of \<open>Restore\<close> for an output path that must not exist.\<close>

definition restore_new :: "txid_text \<Rightarrow> 's restore_env \<Rightarrow> RestoreOptions \<Rightarrow> lfs \<Rightarrow> (outcome \<times> lfs) option" where
  "restore_new tt env opt s =
     (case lf_Stat (OutputPath opt) s of
        (None, s) \<Rightarrow> Some (Returned (Some (Errorf ''cannot restore, output path already exists'')), s)
      | (Some err, s) \<Rightarrow>
          if \<not> os_IsNotExist err then Some (Returned (Some err), s)
          else
     (case (if opt_TXID opt = 0 \<and> \<not> opt_Follow opt
            then (case re_v3 env of
                    None \<Rightarrow> Inr False
                  | Some client \<Rightarrow> shouldUseV3Restore (re_client env) (re_store env) client (Timestamp opt))
            else Inr False) of
        Inl err \<Rightarrow> Some (Returned (Some err), s)
      | Inr useV3 \<Rightarrow>
          if useV3 then (case RestoreV3 env opt s of (err, s) \<Rightarrow> Some (Returned err, s))
          else restore_ltx tt env opt s))"

definition Restore :: "txid_text \<Rightarrow> 's restore_env \<Rightarrow> RestoreOptions \<Rightarrow> lfs \<Rightarrow> (outcome \<times> lfs) option" where
  "Restore tt env opt s =
     (case check_options opt of
        Some err \<Rightarrow> Some (Returned (Some err), s)
      | None \<Rightarrow>
          if opt_Follow opt
          then (case lf_Stat (OutputPath opt) s of
                  (None, s) \<Rightarrow> Some (resume_follow tt env opt s)
                | (Some _, s) \<Rightarrow> restore_new tt env opt s)
          else restore_new tt env opt s)"

subsection \<open>What SQLite touches\<close>

definition sql_aux :: "string \<Rightarrow> string set" where
  "sql_aux p = {p @ ''-wal'', p @ ''-shm'', p @ ''-journal''}"

text \<open>SQLite changes the files that belong to the database only, and a query does not change the database itself.\<close>

locale sqlite_files =
  fixes sq :: sqlite
  assumes open_changes: "sql_Open sq p s = (e, s') \<Longrightarrow> changes (sql_aux p) s s'"
    and query_changes: "sql_QueryRow sq p q s = (r, s') \<Longrightarrow> changes (sql_aux p) s s'"
    and close_changes: "changes (sql_aux p) s (sql_Close sq p s)"
    and exec_changes: "sql_Exec sq p q s = (e, s') \<Longrightarrow> changes (insert p (sql_aux p)) s s'"
begin

lemma remove_aux: "changes (sql_aux p) s (snd (lf_Remove (p @ ''-wal'') (snd (lf_Remove (p @ ''-shm'') s))))"
  by (rule changes_trans; rule Remove_snd_changes) (simp_all add: sql_aux_def)

lemma checkIntegrity_changes:
  assumes "checkIntegrity sq p mode s = (e, s')"
  shows "changes (sql_aux p) s s'"
proof -
  obtain e1 s1 where o1: "sql_Open sq p s = (e1, s1)" by (metis prod.exhaust)
  obtain r s2 where q: "sql_QueryRow sq p (''PRAGMA '' @ (if mode = IntegrityCheckQuick then ''quick_check'' else ''integrity_check'')) s1 = (r, s2)"
    by (metis prod.exhaust)
  note c1 = open_changes [OF o1] and c2 = changes_trans [OF open_changes [OF o1] query_changes [OF q]]
  have "s' = s \<or> s' = s1 \<or> s' = sql_Close sq p s1 \<or> s' = sql_Close sq p s2 \<or>
        s' = sql_Close sq p (snd (lf_Remove (p @ ''-wal'') (snd (lf_Remove (p @ ''-shm'') s2))))"
    using assms o1 q by (auto simp: checkIntegrity_def Let_def split: if_splits option.splits sum.splits)
  then show ?thesis
    using c1 c2 changes_trans [OF c1 close_changes] changes_trans [OF c2 close_changes]
      changes_trans [OF changes_trans [OF c2 remove_aux] close_changes] by auto
qed

lemma checkIntegrity_ok:
  assumes "checkIntegrity sq p mode s = (None, s')" "mode \<noteq> IntegrityCheckNone"
  shows "\<exists>s1 s2. sql_QueryRow sq p (if mode = IntegrityCheckQuick then ''PRAGMA quick_check'' else ''PRAGMA integrity_check'') s1 = (Inr ''ok'', s2) \<and>
                 changes (sql_aux p) s s1"
proof -
  obtain s1 where o1: "sql_Open sq p s = (None, s1)" using assms by (auto simp: checkIntegrity_def split: option.splits prod.splits)
  obtain r s2 where q: "sql_QueryRow sq p (if mode = IntegrityCheckQuick then ''PRAGMA quick_check'' else ''PRAGMA integrity_check'') s1 = (r, s2)"
    by (metis prod.exhaust)
  have "r = Inr ''ok''" using assms o1 q by (auto simp: checkIntegrity_def Let_def split: if_splits sum.splits)
  then show ?thesis using q open_changes [OF o1] by blast
qed

lemma finish_changes:
  assumes "finish_restore sq ctx_done p mode s = (e, s')"
  shows "changes (insert p (sql_aux p)) s s'"
    and "lf_files s' p = lf_files s p \<or> e \<noteq> None \<and> lf_files s' p = None"
    and "e = None \<Longrightarrow> mode = IntegrityCheckNone \<or>
         (\<exists>s1 s2. sql_QueryRow sq p (if mode = IntegrityCheckQuick then ''PRAGMA quick_check'' else ''PRAGMA integrity_check'') s1 = (Inr ''ok'', s2) \<and>
                  lf_files s1 p = lf_files s p)"
proof -
  have np: "p \<notin> sql_aux p" by (auto simp: sql_aux_def)
  obtain e1 s1 where c: "checkIntegrity sq p mode s = (e1, s1)" by (metis prod.exhaust)
  note c1 = checkIntegrity_changes [OF c]
  let ?s2 = "snd (lf_Remove p s1)"
  let ?s3 = "snd (lf_Remove (p @ ''-wal'') (snd (lf_Remove (p @ ''-shm'') ?s2)))"
  have s': "mode = IntegrityCheckNone \<and> s' = s \<and> e = None \<or> mode \<noteq> IntegrityCheckNone \<and> (e1 = None \<and> e = None \<and> s' = s1 \<or> e \<noteq> None \<and> (s' = s1 \<or> s' = ?s3))"
    using assms c by (auto simp: finish_restore_def split: if_splits option.splits)
  have c1': "changes (insert p (sql_aux p)) s s1" by (rule changes_mono [OF c1]) auto
  have c2: "changes (insert p (sql_aux p)) s1 ?s2" by (rule Remove_snd_changes) simp
  have c3: "changes (insert p (sql_aux p)) ?s2 ?s3" by (rule changes_mono [OF remove_aux]) auto
  show "changes (insert p (sql_aux p)) s s'"
    using s' c1' changes_trans [OF c1' changes_trans [OF c2 c3]] by auto
  have p1: "lf_files s1 p = lf_files s p" using c1 np by (simp add: changes_def)
  have "lf_files ?s2 p = lf_files s1 p \<or> lf_files ?s2 p = None"
    using Remove_files [of p s1 "fst (lf_Remove p s1)" ?s2] by (simp split: if_splits)
  moreover have "lf_files ?s3 p = lf_files ?s2 p" using remove_aux [of p ?s2] np by (simp add: changes_def)
  ultimately show "lf_files s' p = lf_files s p \<or> e \<noteq> None \<and> lf_files s' p = None" using s' p1 by auto
  show "mode = IntegrityCheckNone \<or>
      (\<exists>s1 s2. sql_QueryRow sq p (if mode = IntegrityCheckQuick then ''PRAGMA quick_check'' else ''PRAGMA integrity_check'') s1 = (Inr ''ok'', s2) \<and>
               lf_files s1 p = lf_files s p)" if "e = None"
  proof (cases "mode = IntegrityCheckNone")
    case False
    then have "e1 = None" using s' that by auto
    with checkIntegrity_ok [OF c [unfolded this] False] np show ?thesis unfolding changes_def by blast
  qed simp
qed

lemma checkpoint_changes:
  assumes "checkpointV3 sq p s = (e, s')"
  shows "changes (insert p (sql_aux p)) s s'"
proof -
  obtain e1 s1 where o1: "sql_Open sq p s = (e1, s1)" by (metis prod.exhaust)
  obtain e2 s2 where x2: "sql_Exec sq p ''PRAGMA wal_checkpoint(TRUNCATE)'' s1 = (e2, s2)" by (metis prod.exhaust)
  have c1: "changes (insert p (sql_aux p)) s s1" by (rule changes_mono [OF open_changes [OF o1]]) auto
  have c2: "changes (insert p (sql_aux p)) s2 (sql_Close sq p s2)" by (rule changes_mono [OF close_changes]) auto
  have "s' = s1 \<or> s' = sql_Close sq p s2" using assms o1 x2 by (auto simp: checkpointV3_def split: option.splits)
  then show ?thesis using c1 changes_trans [OF changes_trans [OF c1 exec_changes [OF x2]] c2] by auto
qed

lemma applyLast_changes:
  assumes "applyLastWalFile sq p wal f s = (e, f', s')"
  shows "changes (insert p (sql_aux p)) s s'"
proof (cases f)
  case None
  then show ?thesis using assms by (simp add: applyLastWalFile_def)
next
  case (Some k)
  obtain e1 s1 where c: "f_Close wal s = (e1, s1)" by (metis prod.exhaust)
  obtain e2 s2 where k: "checkpointV3 sq p s1 = (e2, s2)" by (metis prod.exhaust)
  have "s' = s1 \<or> s' = s2" using assms Some c k by (auto simp: applyLastWalFile_def split: option.splits)
  then show ?thesis using Close_changes [OF c] changes_trans [OF Close_changes [OF c] checkpoint_changes [OF k]] by blast
qed

lemma wal_segments_changes:
  "wal_segments sq cd r client gen p (p @ ''-wal'') segs f s = (e, f', s') \<Longrightarrow> changes (insert p (sql_aux p)) s s'"
proof (induction segs arbitrary: f s)
  case Nil
  then show ?case using applyLast_changes by simp
next
  case (Cons seg segs)
  let ?D = "insert p (sql_aux p)" and ?wal = "p @ ''-wal''"
  have wal: "?wal \<in> ?D" by (simp add: sql_aux_def)
  obtain e1 f1 s1 where a: "applyLastWalFile sq p ?wal f s = (e1, f1, s1)" by (metis prod.exhaust)
  obtain e2 s2 where o2: "lf_OpenCreate ?wal s1 = (e2, s2)" by (metis prod.exhaust)
  note c1 = applyLast_changes [OF a] and c2 = changes_trans [OF applyLast_changes [OF a] OpenCreate_changes [OF o2 wal]]
  obtain e3 f3 s3 where st: "(if sg_Offset seg = 0
      then (case applyLastWalFile sq p ?wal f s of (Some err, f, s) \<Rightarrow> (Some err, f, s)
            | (None, f, s) \<Rightarrow> (case lf_OpenCreate ?wal s of (Some err, s) \<Rightarrow> (Some err, None, s) | (None, s) \<Rightarrow> (None, Some 0, s)))
      else (None, f, s)) = (e3, f3, s3)" by (rule prod_cases3)
  have c3: "changes ?D s s3" using st a o2 c1 c2 by (auto split: if_splits option.splits)
  obtain e4 f4 s4 where ap: "appendWALSegmentV3 cd r client gen seg ?wal f3 s3 = (e4, f4, s4)" by (metis prod.exhaust)
  have "changes ?D s3 s4"
    using ap by (auto simp: appendWALSegmentV3_def intro: Copy_changes [OF _ wal] split: sum.splits option.splits prod.splits)
  note c4 = changes_trans [OF c3 this]
  show ?case
  proof (cases "e3 = None \<and> e4 = None")
    case True
    then have "wal_segments sq cd r client gen p ?wal segs f4 s4 = (e, f', s')" using Cons.prems ap st by simp
    from changes_trans [OF c4 Cons.IH [OF this]] show ?thesis .
  next
    case False
    then have "s' = s3 \<or> s' = s4" using Cons.prems ap st by (cases e3; cases e4) auto
    then show ?thesis using c3 c4 by blast
  qed
qed

end

subsection \<open>The output of a restore\<close>

text \<open>A complete image: all readers of a plan decoded to the end without error; or a downloaded snapshot with the segments
  applied.\<close>

definition ltx_complete :: "'s restore_env \<Rightarrow> RestoreOptions \<Rightarrow> byte list \<Rightarrow> bool" where
  "ltx_complete env opt c \<longleftrightarrow>
     (\<exists>infos rdrs. CalcRestorePlan (re_MaxTXID env) (re_client env) (re_store env) (opt_TXID opt) (Timestamp opt) = Inr infos \<and>
        plan_readers env infos = Some (Inr rdrs) \<and> re_image env rdrs = (c, None))"

definition v3_complete :: "'s restore_env \<Rightarrow> RestoreOptions \<Rightarrow> byte list \<Rightarrow> bool" where
  "v3_complete env opt c \<longleftrightarrow>
     (\<exists>client sn segs s1 s2 s3. re_v3 env = Some client \<and> choose_v3 client (Timestamp opt) = Inr (sn, segs) \<and>
        downloadSnapshotV3 (re_codec env) (re_replica env) client (sn_Generation sn) (sn_Index sn) (OutputPath opt @ ''.tmp'') s1 = (None, s2) \<and>
        applyWALSegmentsV3 (re_sqlite env) (re_codec env) (re_replica env) client (sn_Generation sn) segs (OutputPath opt @ ''.tmp'') s2 = (None, s3) \<and>
        lf_files s3 (OutputPath opt @ ''.tmp'') = Some c)"

text \<open>The integrity check, when asked for, has found the image in order.\<close>

definition checked :: "'s restore_env \<Rightarrow> RestoreOptions \<Rightarrow> byte list \<Rightarrow> bool" where
  "checked env opt c \<longleftrightarrow> IntegrityCheck opt = IntegrityCheckNone \<or>
     (\<exists>s1 s2. sql_QueryRow (re_sqlite env) (OutputPath opt)
                (if IntegrityCheck opt = IntegrityCheckQuick then ''PRAGMA quick_check'' else ''PRAGMA integrity_check'') s1 = (Inr ''ok'', s2) \<and>
              lf_files s1 (OutputPath opt) = Some c)"

definition touched :: "string \<Rightarrow> string set" where
  "touched out = insert out (sql_aux out) \<union> insert (out @ ''.tmp'') (sql_aux (out @ ''.tmp'')) \<union> {TXIDPath out, TXIDPath out @ ''.tmp''}"

lemma out_notin [simp]:
  "out \<notin> sql_aux out" "out \<noteq> out @ ''.tmp''" "out \<notin> sql_aux (out @ ''.tmp'')" "out \<noteq> TXIDPath out" "out \<noteq> TXIDPath out @ ''.tmp''"
  by (auto simp: sql_aux_def TXIDPath_def)

lemma write_image_effect:
  assumes "write_image img tmp out s = (e, s')" and "lf_files s tmp = Some []" and "tmp \<noteq> out"
  shows "changes {tmp, out} s s'" and "e \<noteq> None \<Longrightarrow> lf_files s' out = lf_files s out"
    and "e = None \<Longrightarrow> snd img = None \<and> lf_files s' out = Some (fst img)"
proof -
  obtain e1 s1 where w: "f_WriteAt tmp (fst img) 0 s = (e1, s1)" by (metis prod.exhaust)
  obtain e2 s2 where y: "f_Sync tmp s1 = (e2, s2)" by (metis prod.exhaust)
  obtain e3 s3 where c: "f_Close tmp s2 = (e3, s3)" by (metis prod.exhaust)
  obtain e4 s4 where r: "lf_Rename tmp out s3 = (e4, s4)" by (metis prod.exhaust)
  obtain part where f1: "lf_files s1 = (lf_files s)(tmp \<mapsto> part)" "e1 = None \<longrightarrow> part = fst img"
    using WriteAt_files [OF w assms(2)] by (auto simp: write_at_def)
  have f3: "lf_files s2 = lf_files s1" "lf_files s3 = lf_files s1" using Sync_files [OF y] Close_files [OF c] by simp_all
  note f4 = Rename_files [OF r]
  have s': "e \<noteq> None \<and> (s' = s1 \<or> s' = s2 \<or> s' = s3) \<or>
            s' = s4 \<and> e = e4 \<and> e1 = None \<and> snd img = None"
    using assms(1) w y c r by (auto simp: write_image_def io_Copy_def split: option.splits)
  then show "changes {tmp, out} s s'" using f1 f3 f4 by (auto simp: changes_def split: if_splits)
  show "e \<noteq> None \<Longrightarrow> lf_files s' out = lf_files s out" using s' f1(1) f3 f4 assms(3) by auto
  show "e = None \<Longrightarrow> snd img = None \<and> lf_files s' out = Some (fst img)" using s' f1 f3 f4 assms(3) by auto
qed

text \<open>What holds after a restore into a path that did not exist: there is no output and an error is returned, or the output
  is complete; if the restore succeeded it is complete and has passed the check.\<close>

definition restored :: "'s restore_env \<Rightarrow> RestoreOptions \<Rightarrow> outcome \<Rightarrow> lfs \<Rightarrow> lfs \<Rightarrow> bool" where
  "restored env opt res s s' \<longleftrightarrow>
     changes (touched (OutputPath opt)) s s' \<and>
     (case lf_files s' (OutputPath opt) of
        None \<Rightarrow> \<exists>e. res = Returned (Some e)
      | Some c \<Rightarrow> (ltx_complete env opt c \<or> v3_complete env opt c) \<and> ((\<exists>e. res = Returned (Some e)) \<or> checked env opt c))"

lemma restored_untouched:
  "lf_files s (OutputPath opt) = None \<Longrightarrow> lf_files s' = lf_files s \<Longrightarrow> restored env opt (Returned (Some e)) s s'"
  by (simp add: restored_def changes_files)

lemma finish_restored:
  assumes sq: "sqlite_files (re_sqlite env)"
    and ch: "changes (touched (OutputPath opt)) s s1"
    and c: "lf_files s1 (OutputPath opt) = Some c" "ltx_complete env opt c \<or> v3_complete env opt c"
    and fin: "finish_restore (re_sqlite env) (re_ctx_done env) (OutputPath opt) (IntegrityCheck opt) s1 = (e, s2)"
  shows "restored env opt (Returned e) s s2"
    and "e = None \<Longrightarrow> changes (touched (OutputPath opt)) s s2 \<and> lf_files s2 (OutputPath opt) = Some c \<and> checked env opt c"
proof -
  note f = sqlite_files.finish_changes [OF sq fin]
  have c2: "changes (touched (OutputPath opt)) s s2"
    by (rule changes_trans [OF ch changes_mono [OF f(1)]]) (auto simp: touched_def)
  have ck: "checked env opt c" if "e = None" using f(3) [OF that] c(1) by (simp add: checked_def)
  show "restored env opt (Returned e) s s2" using c2 f(2) c ck by (cases e) (auto simp: restored_def split: option.splits)
  show "e = None \<Longrightarrow> changes (touched (OutputPath opt)) s s2 \<and> lf_files s2 (OutputPath opt) = Some c \<and> checked env opt c"
    using c2 f(2) c(1) ck by auto
qed

lemma restored_files: "restored env opt res s s1 \<Longrightarrow> lf_files s2 = lf_files s1 \<Longrightarrow> restored env opt res s s2"
  by (simp add: restored_def changes_def)

lemma restore_write_restored:
  assumes sq: "sqlite_files (re_sqlite env)" and new: "lf_files s (OutputPath opt) = None"
    and img: "\<And>c. re_image env rdrs = (c, None) \<Longrightarrow> ltx_complete env opt c"
    and run: "restore_write tt env opt rdrs t s = (res, s')"
  shows "restored env opt res s s'"
proof -
  let ?out = "OutputPath opt" let ?tmp = "OutputPath opt @ ''.tmp''" let ?T = "touched (OutputPath opt)"
  have T: "?tmp \<in> ?T" "{?tmp, ?out} \<subseteq> ?T" by (auto simp: touched_def)
  obtain e1 s1 where m: "lf_MkdirAll ?out s = (e1, s1)" by (metis prod.exhaust)
  obtain e2 s2 where c: "lf_Create ?tmp s1 = (e2, s2)" by (metis prod.exhaust)
  obtain e3 s3 where w: "write_image (re_image env rdrs) ?tmp ?out s2 = (e3, s3)" by (metis prod.exhaust)
  obtain e4 s4 where f: "finish_restore (re_sqlite env) (re_ctx_done env) ?out (IntegrityCheck opt) s3 = (e4, s4)" by (metis prod.exhaust)
  obtain e5 s5 where x: "WriteTXIDFile tt ?out t s4 = (e5, s5)" by (metis prod.exhaust)
  have f1: "lf_files s1 = lf_files s" using MkdirAll_files [OF m] .
  note f2 = Create_files [OF c]
  have ch2: "changes ?T s s2" using changes_trans [OF MkdirAll_changes [OF m] Create_changes [OF c T(1)]] .
  have o2: "lf_files s2 ?out = None" using f1 f2 new by simp
  consider "e1 \<noteq> None" | "e1 = None" "e2 \<noteq> None" | "e1 = None" "e2 = None" "e3 \<noteq> None" | "e1 = None" "e2 = None" "e3 = None" by blast
  then show ?thesis
  proof cases
    case 1
    then obtain e where "res = Returned (Some e)" "s' = s1" using run m by (auto simp: restore_write_def)
    then show ?thesis using restored_untouched [OF new f1] by simp
  next
    case 2
    then obtain e where "res = Returned (Some e)" "s' = s2" using run m c by (auto simp: restore_write_def Let_def)
    moreover have "lf_files s2 = lf_files s" using 2 f1 f2 by auto
    ultimately show ?thesis using restored_untouched [OF new] by simp
  next
    case 3
    note we = write_image_effect [OF w]
    have "lf_files s2 ?tmp = Some []" using f2 3 by simp
    then have "changes {?tmp, ?out} s2 s3" "lf_files s3 ?out = None" using we(1,2) 3 o2 by auto
    then have "restored env opt (Returned (Some e)) s s3" for e
      using changes_trans [OF ch2 changes_mono [OF _ T(2)]] by (simp add: restored_def)
    moreover obtain e where "res = Returned (Some e)" "lf_files s' = lf_files s3" using run m c w 3 by (auto simp: restore_write_def Let_def)
    ultimately show ?thesis using restored_files by blast
  next
    case 4
    note we = write_image_effect [OF w]
    have tmp: "lf_files s2 ?tmp = Some []" using f2 4 by simp
    then have "changes {?tmp, ?out} s2 s3" and i: "snd (re_image env rdrs) = None" "lf_files s3 ?out = Some (fst (re_image env rdrs))"
      using we(1,3) 4 by auto
    then have ch3: "changes ?T s s3" using changes_trans [OF ch2 changes_mono [OF _ T(2)]] by blast
    have cpl: "ltx_complete env opt (fst (re_image env rdrs))" by (rule img) (use i(1) in \<open>simp add: prod_eq_iff\<close>)
    note fin = finish_restored [OF sq ch3 i(2) disjI1 [OF cpl] f]
    show ?thesis
    proof (cases "e4 = None \<and> opt_Follow opt")
      case False
      then have "res = Returned e4" "lf_files s' = lf_files s4" using run m c w f 4 by (auto simp: restore_write_def Let_def split: option.splits)
      then show ?thesis using restored_files [OF fin(1)] by simp
    next
      case True
      then have r: "lf_files s' = lf_files s5" "res = EnterFollow t \<or> (\<exists>e. res = Returned (Some e))"
        using run m c w f x 4 by (auto simp: restore_write_def Let_def split: option.splits)
      have "changes ?T s4 s5" using WriteTXIDFile_files [OF x] by (auto simp: changes_def touched_def)
      moreover have "lf_files s5 ?out = lf_files s4 ?out" using WriteTXIDFile_files [OF x] by simp
      ultimately have "restored env opt res s s5"
        using fin(2) True r(2) cpl changes_trans [of ?T s s4 s5] by (auto simp: restored_def)
      then show ?thesis using restored_files r(1) by blast
    qed
  qed
qed

lemma restore_ltx_restored:
  assumes sq: "sqlite_files (re_sqlite env)" and new: "lf_files s (OutputPath opt) = None"
    and run: "restore_ltx tt env opt s = Some (res, s')"
  shows "restored env opt res s s'"
proof (cases "\<exists>e. res = Returned (Some e) \<and> s' = s")
  case True
  then show ?thesis using restored_untouched [OF new] by auto
next
  case False
  then obtain infos where p: "CalcRestorePlan (re_MaxTXID env) (re_client env) (re_store env) (opt_TXID opt) (Timestamp opt) = Inr infos"
    using run by (auto simp: restore_ltx_def split: sum.splits)
  obtain r where r: "plan_readers env infos = Some r"
    using run p by (auto simp: restore_ltx_def bind_eq_Some_conv)
  obtain rdrs where q: "r = Inr rdrs" "restore_write tt env opt rdrs (MaxTXID (last infos)) s = (res, s')"
    using run p r False by (cases r) (auto simp: restore_ltx_def split: if_splits)
  show ?thesis by (rule restore_write_restored [OF sq new _ q(2)]) (use p r q(1) in \<open>auto simp: ltx_complete_def\<close>)
qed

lemma download_changes:
  assumes "downloadSnapshotV3 cd r client gen index dest s = (e, s')"
  shows "changes {dest} s s'"
proof -
  obtain e1 s1 where c: "lf_Create dest s = (e1, s1)" by (metis prod.exhaust)
  have c1: "changes {dest} s s1" by (rule Create_changes [OF c]) simp
  have c2: "changes {dest} s (snd (f_Close dest s3))" if "io_Copy dest 0 rd s1 = (e2, s2)" "s3 = s2 \<or> s3 = snd (f_Sync dest s2)" for rd e2 s2 s3
  proof -
    have "changes {dest} s1 s2" by (rule Copy_changes [OF that(1)]) simp
    moreover have "lf_files s3 = lf_files s2" using that(2) Sync_files [of dest s2 "fst (f_Sync dest s2)" "snd (f_Sync dest s2)"] by auto
    ultimately show ?thesis using c1 by (simp add: changes_def)
  qed
  consider "s' = s" | "s' = s1" | rd e2 s2 s3 where "io_Copy dest 0 rd s1 = (e2, s2)" "s3 = s2 \<or> s3 = snd (f_Sync dest s2)" "s' = snd (f_Close dest s3)"
    using assms by (fastforce simp: downloadSnapshotV3_def c split: sum.splits option.splits prod.splits)
  then show ?thesis using c1 c2 by cases simp_all
qed

lemma applyWAL_changes:
  assumes "sqlite_files sq" and "applyWALSegmentsV3 sq cd r client gen segs p s = (e, s')"
  shows "changes (insert p (sql_aux p)) s s'"
proof (cases "segs = []")
  case False
  obtain e1 f1 s1 where w: "wal_segments sq cd r client gen p (p @ ''-wal'') segs None s = (e1, f1, s1)" by (rule prod_cases3)
  have "lf_files s' = lf_files s1" using assms(2) w False by (auto simp: applyWALSegmentsV3_def Let_def split: if_splits)
  then show ?thesis using sqlite_files.wal_segments_changes [OF assms(1) w] by (simp add: changes_def)
qed (use assms in \<open>simp add: applyWALSegmentsV3_def\<close>)

lemma restore_v3_files_restored:
  assumes sq: "sqlite_files (re_sqlite env)" and new: "lf_files s (OutputPath opt) = None"
    and cl: "re_v3 env = Some client" "choose_v3 client (Timestamp opt) = Inr (sn, segs)"
    and run: "restore_v3_files env client opt sn segs s = (e, s')"
  shows "restored env opt (Returned e) s s'"
proof -
  let ?out = "OutputPath opt" let ?tmp = "OutputPath opt @ ''.tmp''" let ?T = "touched (OutputPath opt)"
  let ?D = "insert ?tmp (sql_aux ?tmp)"
  have T: "?D \<subseteq> ?T" "?tmp \<in> ?T" "?out \<in> ?T" and D: "?out \<notin> ?D" by (auto simp: touched_def)
  obtain e1 s1 where d: "downloadSnapshotV3 (re_codec env) (re_replica env) client (sn_Generation sn) (sn_Index sn) ?tmp s = (e1, s1)"
    by (metis prod.exhaust)
  obtain e2 s2 where a: "applyWALSegmentsV3 (re_sqlite env) (re_codec env) (re_replica env) client (sn_Generation sn) segs ?tmp s1 = (e2, s2)"
    by (metis prod.exhaust)
  obtain e3 s3 where r: "lf_Rename ?tmp ?out s2 = (e3, s3)" by (metis prod.exhaust)
  have c1: "changes ?D s s1" by (rule changes_mono [OF download_changes [OF d]]) auto
  have c2: "changes ?D s s2" by (rule changes_trans [OF c1 applyWAL_changes [OF sq a]])
  have part: "restored env opt (Returned (Some e)) s t" if "changes ?D s t" for t e
    using that changes_mono [OF that T(1)] new D by (simp add: restored_def changes_def)
  note f3 = Rename_files [OF r]
  consider "e \<noteq> None" "s' = s1 \<or> s' = s2" | "e \<noteq> None" "e3 \<noteq> None" "s' = s3"
    | "e1 = None" "e2 = None" "e3 = None" "finish_restore (re_sqlite env) (re_ctx_done env) ?out (IntegrityCheck opt) s3 = (e, s')"
    using run d a r by (cases e1; cases e2; cases e3) (auto simp: restore_v3_files_def Let_def)
  then show ?thesis
  proof cases
    case 1
    then show ?thesis using part c1 c2 by auto
  next
    case 2
    then have "lf_files s3 = lf_files s2" using f3 by auto
    then have "changes ?D s s3" using c2 by (simp add: changes_def)
    then show ?thesis using 2 part by auto
  next
    case 3
    obtain c where c: "lf_files s2 ?tmp = Some c" using f3 3(3) by auto
    have o3: "lf_files s3 ?out = Some c" using f3 3(3) c by simp
    have "v3_complete env opt c" using cl d a 3 c unfolding v3_complete_def by blast
    moreover have "changes ?T s s3" by (rule changes_trans [OF changes_mono [OF c2 T(1)] Rename_changes [OF r T(2,3)]])
    ultimately show ?thesis using finish_restored(1) [OF sq _ o3 _ 3(4)] by blast
  qed
qed

lemma restore_v3_restored:
  assumes sq: "sqlite_files (re_sqlite env)" and new: "lf_files s (OutputPath opt) = None"
    and run: "RestoreV3 env opt s = (e, s')"
  shows "restored env opt (Returned e) s s'"
proof -
  let ?out = "OutputPath opt" let ?tmp = "OutputPath opt @ ''.tmp''"
  obtain e1 s1 where st: "lf_Stat ?out s = (e1, s1)" by (metis prod.exhaust)
  obtain e2 s2 where m: "lf_MkdirAll ?out s1 = (e2, s2)" by (metis prod.exhaust)
  have f: "lf_files s1 = lf_files s" "lf_files s2 = lf_files s" using Stat_files [OF st] MkdirAll_files [OF m] by simp_all
  have new2: "lf_files s2 ?out = None" using f new by simp
  consider "e \<noteq> None" "s' = s \<or> s' = s1 \<or> s' = s2"
    | client sn segs s3 where "re_v3 env = Some client" "choose_v3 client (Timestamp opt) = Inr (sn, segs)"
        "restore_v3_files env client opt sn segs s2 = (e, s3)" "s' = snd (lf_Remove ?tmp s3)"
    using run st m by (auto simp: RestoreV3_def split: option.splits if_splits sum.splits prod.splits)
  then show ?thesis
  proof cases
    case 1
    then show ?thesis using restored_untouched [OF new] f by auto
  next
    case (2 client sn segs s3)
    have "restored env opt (Returned e) s2 s3" by (rule restore_v3_files_restored [OF sq new2 2(1-3)])
    moreover have "changes {?tmp} s3 s'" unfolding 2(4) by (rule Remove_snd_changes) simp
    moreover have "{?tmp} \<subseteq> touched ?out" by (auto simp: touched_def)
    ultimately have "changes (touched ?out) s s'" "lf_files s' ?out = lf_files s3 ?out"
      using f changes_mono [of "{?tmp}" s3 s'] by (auto simp: restored_def changes_def)
    then show ?thesis using \<open>restored env opt (Returned e) s2 s3\<close> by (simp add: restored_def)
  qed
qed


text \<open>An instance: the image is the concatenation of the files, and SQLite finds every database in order.\<close>

definition test_sqlite :: sqlite where
  "test_sqlite = \<lparr>sql_Open = (\<lambda>p s. (None, put (p @ ''-shm'') (Some []) s)), sql_Exec = (\<lambda>p q s. (None, put (p @ ''-wal'') (Some []) s)),
     sql_QueryRow = (\<lambda>p q s. (Inr ''ok'', s)), sql_Close = (\<lambda>p s. put (p @ ''-shm'') None s)\<rparr>"

interpretation test_sql: sqlite_files test_sqlite
  by unfold_locales (auto simp: test_sqlite_def changes_def sql_aux_def)

definition test_env :: "filesys restore_env" where
  "test_env = \<lparr>re_client = doc_client, re_store = mem_fs [((9, 1, 2), ([1, 2], 5)), ((0, 3, 3), ([3], 6))], re_v3 = None, re_replica = NewReplica,
     re_codec = test_codec, re_sqlite = test_sqlite, re_MaxTXID = slice_MaxTXID, re_HeaderSize = 1,
     re_image = (\<lambda>rdrs. (concat (map fst rdrs), None)), re_buffer = 1, re_ctx_done = False\<rparr>"

definition test_opt :: RestoreOptions where
  "test_opt = NewRestoreOptions\<lparr>OutputPath := ''out'', IntegrityCheck := IntegrityCheckFull\<rparr>"

definition empty_lfs :: lfs where
  "empty_lfs = \<lparr>lf_files = Map.empty, lf_tick = 0, lf_fault = (\<lambda>_. None), lf_short = (\<lambda>_. 0), lf_rand = (\<lambda>_. 0)\<rparr>"


subsection \<open>Properties: what a restore reads\<close>

lemma drain_calls:
  assumes "drain rd n c = Some y"
  shows "\<exists>ns e c'. read_calls rd c ns = ((fst y, Some e), c') \<and> (snd y = None \<longrightarrow> e = Sentinel io_EOF)"
proof (rule drain.raw_induct [OF _ assms])
  fix dr and rd :: "'c \<Rightarrow> nat \<Rightarrow> (byte list \<times> goerr option) \<times> 'c" and n c y
  assume IH: "\<And>rd n (c :: 'c) y. dr rd n c = Some y \<Longrightarrow> \<exists>ns e c'. read_calls rd c ns = ((fst y, Some e), c') \<and> (snd y = None \<longrightarrow> e = Sentinel io_EOF)"
    and run: "(case rd c n of
        ((bs, Some e), c') \<Rightarrow> Some (bs, if e = Sentinel io_EOF then None else Some e)
      | ((bs, None), c') \<Rightarrow> Option.bind (dr rd n c') (\<lambda>(bs', e). Some (bs @ bs', e))) = Some y"
  obtain b e1 c1 where r: "rd c n = ((b, e1), c1)" by (metis prod.exhaust)
  show "\<exists>ns e c'. read_calls rd c ns = ((fst y, Some e), c') \<and> (snd y = None \<longrightarrow> e = Sentinel io_EOF)"
  proof (cases e1)
    case None
    then obtain y1 where y1: "dr rd n c1 = Some y1" "y = (b @ fst y1, snd y1)" using run r by (auto simp: bind_eq_Some_conv)
    from IH [OF y1(1)] obtain ns e c' where "read_calls rd c1 ns = ((fst y1, Some e), c')" "snd y1 = None \<longrightarrow> e = Sentinel io_EOF"
      by (elim exE conjE)
    with r None y1 show ?thesis by (intro exI [of _ "n # ns"]) auto
  next
    case (Some e)
    with run r show ?thesis by (intro exI [of _ "[n]"]) (auto split: if_splits)
  qed
qed

text \<open>
  What the storage promises of an object: it has the listed size, and a connection opened at an offset delivers the
  object from there, though it may break or end early.
\<close>

definition serves :: "'s ReplicaClient \<Rightarrow> 's \<Rightarrow> FileInfo \<Rightarrow> byte list \<Rightarrow> bool" where
  "serves client s info object \<longleftrightarrow> FSize info = length object \<and>
     (\<forall>off bs e. OpenLTXFile client s (FLevel info) (MinTXID info) (MaxTXID info) (int off) 0 = Inr (bs, e) \<longrightarrow> prefix bs (drop off object))"

lemma stream_reader: "ranged_reader stream_Read (\<lambda>object off c. prefix (fst c) (drop off object))"
proof unfold_locales
  fix content off n and c c' :: stream and bs e
  assume at: "prefix (fst c) (drop off content)" and rd: "stream_Read c n = ((bs, e), c')"
  obtain rest where rest: "drop off content = fst c @ rest" using at by (auto simp: prefix_def)
  have d: "bs = take n (fst c)" "fst c' = drop n (fst c)" using rd by (auto simp: stream_Read_def split: if_splits)
  have "drop (off + length bs) content = drop (length bs) (fst c @ rest)" by (metis rest drop_drop add.commute)
  also have "... = drop n (fst c) @ rest" using d by (simp add: min_def)
  finally show "length bs \<le> n \<and> take (length bs) (drop off content) = bs \<and> prefix (fst c') (drop (off + length bs) content)"
    using d rest by (auto simp: min_def)
qed

lemma plan_reader_exact:
  assumes "\<not> DecryptionEnabled (re_replica env)" and "serves (re_client env) (re_store env) info object"
    and "OpenLTXFile (re_client env) (re_store env) (FLevel info) (MinTXID info) (MaxTXID info) 0 0 = Inr f" and "plan_reader env info f = Some rd"
  shows "prefix (fst rd) object \<and> (snd rd = None \<longrightarrow> fst rd = object)"
proof -
  let ?opn = "\<lambda>s off. (OpenLTXFile (re_client env) s (FLevel info) (MinTXID info) (MaxTXID info) (int off) 0, s)"
  let ?r = "\<lparr>rr_size = int (FSize info), rr_offset = 0, rr_rc = Some f, rr_client = re_store env\<rparr>"
  let ?at = "\<lambda>object off c. prefix (fst c) (drop off object)"
  have loc: "ranged_open stream_Read ?at ?opn object (\<lambda>s. s = re_store env)"
    using assms(2) by (intro ranged_open.intro stream_reader ranged_open_axioms.intro) (auto simp: serves_def)
  have at: "rr_at ?at object (\<lambda>s. s = re_store env) 0 ?r" 
    using assms(2,3) unfolding serves_def rr_at_def by (cases f) (auto dest: spec [of _ 0])
  have "drain (rr_Read stream_Read ?opn) (re_buffer env) ?r = Some rd" using assms(1,4) by (simp add: plan_reader_def)
  from drain_calls [OF this] obtain ns e r' where "read_calls (rr_Read stream_Read ?opn) ?r ns = ((fst rd, Some e), r')" "snd rd = None \<longrightarrow> e = Sentinel io_EOF"
    by (elim exE conjE)
  with ranged_open.rr_calls [OF loc at] have c: "take (length (fst rd)) object = fst rd \<and> 
      (snd rd = None \<and> object \<noteq> [] \<longrightarrow> length object \<le> length (fst rd))"
    using assms(2) unfolding serves_def by fastforce
  then have "prefix (fst rd) object" by (metis take_is_prefix)
  with c show ?thesis by (cases "object = []") (auto dest: take_all)
qed

text \<open>A connection that delivers the rest of the object is read to its end.\<close>

lemma drain_all:
  assumes "0 < n"
  shows "off + length bs = size_of \<Longrightarrow>
    drain (rr_Read stream_Read opn) n \<lparr>rr_size = int size_of, rr_offset = off, rr_rc = Some (bs, None), rr_client = s\<rparr> = Some (bs, None)"
proof (induction "length bs" arbitrary: bs off rule: less_induct)
  case less
  let ?r = "\<lambda>off bs. \<lparr>rr_size = int size_of, rr_offset = off, rr_rc = Some (bs, None), rr_client = s\<rparr>"
  show ?case
  proof (cases "bs = []")
    case True
    have "rr_Read stream_Read opn (?r off bs) n = (([], Some (Sentinel io_EOF)), ?r off bs)"
      using True less.prems by (simp add: rr_Read_def resumableReaderMaxRetries_def stream_Read_def Let_def eval_nat_numeral)
    with True show ?thesis by (subst drain.simps) simp
  next
    case False
    have step: "rr_Read stream_Read opn (?r off bs) n = ((take n bs, None), ?r (off + length (take n bs)) (drop n bs))"
      using False by (simp add: rr_Read_def resumableReaderMaxRetries_def stream_Read_def Let_def eval_nat_numeral)
    have "drain (rr_Read stream_Read opn) n (?r (off + length (take n bs)) (drop n bs)) = Some (drop n bs, None)"
      using False assms less.prems by (intro less.hyps) auto
    with step show ?thesis by (subst drain.simps) simp
  qed
qed


text \<open>A storage whose connections end after one byte.\<close>

definition short_env :: "filesys restore_env" where
  "short_env = test_env\<lparr>re_client := doc_client\<lparr>OpenLTXFile := (\<lambda>s level a b off sz. Inr (take 1 (drop (nat off) [1, 2, 3]), None))\<rparr>\<rparr>"


subsection \<open>Properties: resuming after a crash\<close>

text \<open>
  C40. Resuming follow mode is decided by the latest snapshot alone: with an existing output and a saved TXID, and no
  failing call, follow mode is entered at that TXID exactly if there is no snapshot or the TXID lies between the
  latest snapshot's first and last TXIDs; in every other case the restart is refused. A saved TXID that follow mode
  has brought past the latest snapshot is refused.
\<close>

theorem follow_resume_exact:
  assumes "txid_codec tt" and "txid_ok t" and "lf_fault s = (\<lambda>_. None)"
    and "check_options opt = None" and "opt_Follow opt"
    and "lf_files s (OutputPath opt) = Some c" and "lf_files s (TXIDPath (OutputPath opt)) = Some (txid_String tt t @ [10])"
    and "LTXFiles (re_client env) (re_store env) SnapshotLevel 0 False = Inr it" and "iter_err it = None"
  shows "\<exists>res s'. Restore tt env opt s = Some (res, s') \<and> lf_files s' = lf_files s \<and>
           (if t \<noteq> 0 \<and> (iter_items it = [] \<or> MinTXID (last (iter_items it)) \<le> t \<and> t \<le> MaxTXID (last (iter_items it)))
            then res = EnterFollow t else \<exists>e. res = Returned (Some e))"
  using assms(3-) txid_codec.TrimSpace_txid [OF assms(1,2)] txid_codec.parse [OF assms(1,2)]
  by (simp add: Restore_def resume_follow_def lf_Stat_def call_def sys_def ReadTXIDFile_def lf_ReadFile_def Let_def)

text \<open>Follow mode has applied TXIDs 3 and 4 after the snapshot of TXIDs 1 and 2: it cannot be restarted.\<close>

theorem follow_resume_exact_witness:
  "let opt = test_opt\<lparr>opt_Follow := True\<rparr>;
       s = empty_lfs\<lparr>lf_files := [''out'' \<mapsto> [1, 2, 3], TXIDPath ''out'' \<mapsto> txid_String doc_txid 4 @ [10]]\<rparr>
   in \<exists>e s'. Restore doc_txid test_env opt s = Some (Returned (Some e), s')"
proof -
  let ?opt = "test_opt\<lparr>opt_Follow := True\<rparr>"
  let ?s = "empty_lfs\<lparr>lf_files := [''out'' \<mapsto> [1, 2, 3], TXIDPath ''out'' \<mapsto> txid_String doc_txid 4 @ [10]]\<rparr>"
  let ?i = "\<lparr>FLevel = 9, MinTXID = 1, MaxTXID = 2, FSize = 2, CreatedAt = 5\<rparr>"
  have "case LTXFiles (re_client test_env) (re_store test_env) SnapshotLevel 0 False of
          Inl _ \<Rightarrow> False | Inr it \<Rightarrow> iter_err it = None \<and> iter_items it = [?i]" by code_simp
  then obtain it where it: "LTXFiles (re_client test_env) (re_store test_env) SnapshotLevel 0 False = Inr it" "iter_err it = None" "iter_items it = [?i]"
    by (cases "LTXFiles (re_client test_env) (re_store test_env) SnapshotLevel 0 False") auto
  show ?thesis
    using follow_resume_exact [OF doc_sidecar.txid_codec_axioms _ _ _ _ _ _ it(1,2), of 4 ?s ?opt] it(3)
    by (auto simp: empty_lfs_def test_opt_def TXIDPath_def check_options_def NewRestoreOptions_def valid_integrity_def)
qed

end
