(* ===== verification/Peer.thy ===== *)
theory Peer
  imports Client Hex
begin

text \<open>
  The peer wire (\<^verbatim>\<open>src/peer/peer.go\<close>): the client that pushes one LTX frame to the standby and waits for its
  acknowledgement, the server on the standby, the byte layout of the four messages, the pooled read of a frame and
  the reader over a byte slice. The ZAP library is the record \<open>zap_api\<close> with its documented behaviour as the locale
  \<open>zap_lib\<close>; the node that carries a call to the standby's handler is the function \<open>call\<close>, its contract the locale
  \<open>peer_link\<close>. The sink behind the server is a record of functions that may return, fail or panic.
\<close>

subsection \<open>Constants\<close>

definition OpWALFrame :: "16 word" where "OpWALFrame = 0xA020"
definition OpWALFrameAck :: "16 word" where "OpWALFrameAck = 0xA021"
definition OpSnapshotReq :: "16 word" where "OpSnapshotReq = 0xA022"
definition OpSnapshotResp :: "16 word" where "OpSnapshotResp = 0xA023"

definition ErrCodeOK :: byte where "ErrCodeOK = 0"
definition ErrCodeBadFrame :: byte where "ErrCodeBadFrame = 1"
definition ErrCodeUnknownMarket :: byte where "ErrCodeUnknownMarket = 2"
definition ErrCodeServerInternal :: byte where "ErrCodeServerInternal = 3"
definition ErrCodeNotStandby :: byte where "ErrCodeNotStandby = 4"

lemmas err_codes = ErrCodeOK_def ErrCodeBadFrame_def ErrCodeUnknownMarket_def ErrCodeServerInternal_def ErrCodeNotStandby_def

definition walFrameHeaderLen :: nat where "walFrameHeaderLen = 8 + 4 + 4"
definition ackLen :: nat where "ackLen = 1 + 8 + 4"
definition snapshotReqLen :: nat where "snapshotReqLen = 8 + 8"
definition snapshotRespHdrLen :: nat where "snapshotRespHdrLen = 1 + 8 + 8"

lemmas wire_lens = walFrameHeaderLen_def ackLen_def snapshotReqLen_def snapshotRespHdrLen_def

text \<open>A \<^verbatim>\<open>MarketID\<close> is an array of eight bytes; \<open>zeroMarket\<close> is its zero value.\<close>

type_synonym MarketID = "byte list"

abbreviation market_ok :: "MarketID \<Rightarrow> bool" where
  "market_ok m \<equiv> length m = 8"

definition zeroMarket :: MarketID where
  "zeroMarket = replicate 8 0"

definition MarketIDFromBytes :: "byte list \<Rightarrow> MarketID" where
  "MarketIDFromBytes b = take 8 (take 8 b @ drop (length b) zeroMarket)"

subsection \<open>Messages\<close>

text \<open>\<open>zap_Build\<close> is the builder of one object with one bytes field, finished with the opcode and parsed again;
  \<open>zap_IsNull\<close> and \<open>zap_Bytes\<close> are \<^verbatim>\<open>msg.Root().IsNull()\<close> and \<^verbatim>\<open>msg.Root().Bytes(0)\<close>.\<close>

record 'm zap_api =
  zap_Build :: "16 word \<Rightarrow> byte list \<Rightarrow> 'm option"
  zap_IsNull :: "'m \<Rightarrow> bool"
  zap_Bytes :: "'m \<Rightarrow> byte list"

definition wrapMessage :: "'m zap_api \<Rightarrow> 16 word \<Rightarrow> byte list \<Rightarrow> 'm option" where
  "wrapMessage z op payload = zap_Build z op payload"

definition walFramePayload :: "MarketID \<Rightarrow> u32 \<Rightarrow> byte list \<Rightarrow> byte list" where
  "walFramePayload mkt txid body =
     mkt @ PutUint32 LittleEndian txid @ PutUint32 LittleEndian (of_nat (length body)) @ body"

definition encodeWALFrameReq :: "'m zap_api \<Rightarrow> MarketID \<Rightarrow> u32 \<Rightarrow> byte list \<Rightarrow> 'm option" where
  "encodeWALFrameReq z mkt txid body = wrapMessage z OpWALFrame (walFramePayload mkt txid body)"

definition decodeWALFrameReq :: "byte list \<Rightarrow> goerr + MarketID \<times> u32 \<times> byte list" where
  "decodeWALFrameReq payload =
     (if length payload < walFrameHeaderLen then Inl (Errorf ''short wal frame'')
      else let mkt = take 8 payload;
               txid = Uint32 LittleEndian (drop 8 payload);
               frameLen = Uint32 LittleEndian (drop 12 payload)
           in if unat frameLen \<noteq> length payload - walFrameHeaderLen then Inl (Errorf ''frame_len mismatch'')
              else Inr (mkt, txid, drop walFrameHeaderLen payload))"

definition encodeAck :: "byte \<Rightarrow> MarketID \<Rightarrow> u32 \<Rightarrow> byte list" where
  "encodeAck code mkt txid = code # mkt @ PutUint32 LittleEndian txid"

definition decodeWALFrameAck :: "'m zap_api \<Rightarrow> 'm option \<Rightarrow> goerr + byte \<times> MarketID \<times> u32" where
  "decodeWALFrameAck z msg =
     (case msg of
        None \<Rightarrow> Inl (Errorf ''nil ack'')
      | Some m \<Rightarrow>
          if zap_IsNull z m then Inl (Errorf ''null ack root'')
          else let payload = zap_Bytes z m in
            if length payload < ackLen then Inl (Errorf ''short ack'')
            else Inr (payload ! 0, take 8 (drop 1 payload), Uint32 LittleEndian (drop 9 payload)))"

definition encodeSnapshotReq :: "'m zap_api \<Rightarrow> MarketID \<Rightarrow> u64 \<Rightarrow> 'm option" where
  "encodeSnapshotReq z mkt fromTXID = wrapMessage z OpSnapshotReq (mkt @ PutUint64 LittleEndian fromTXID)"

definition decodeSnapshotReq :: "byte list \<Rightarrow> goerr + MarketID \<times> u64" where
  "decodeSnapshotReq payload =
     (if length payload < snapshotReqLen then Inl (Errorf ''short snapshot req'')
      else Inr (take 8 payload, Uint64 LittleEndian (drop 8 payload)))"

definition encodeSnapshotResp :: "byte \<Rightarrow> MarketID \<Rightarrow> u64 \<Rightarrow> byte list \<Rightarrow> byte list" where
  "encodeSnapshotResp code mkt txid body = code # mkt @ PutUint64 LittleEndian txid @ body"

definition DecodeSnapshotResp :: "'m zap_api \<Rightarrow> 'm option \<Rightarrow> goerr + byte \<times> MarketID \<times> u64 \<times> byte list" where
  "DecodeSnapshotResp z msg =
     (case msg of
        None \<Rightarrow> Inl (Errorf ''nil resp'')
      | Some m \<Rightarrow>
          if zap_IsNull z m then Inl (Errorf ''null root'')
          else let payload = zap_Bytes z m in
            if length payload < snapshotRespHdrLen then Inl (Errorf ''short snapshot resp'')
            else Inr (payload ! 0, take 8 (drop 1 payload), Uint64 LittleEndian (drop 9 payload),
                      drop snapshotRespHdrLen payload))"

text \<open>The text of an acknowledgement error.\<close>

definition AckError_Error :: "byte \<Rightarrow> string" where
  "AckError_Error code =
     (if code = ErrCodeBadFrame then ''peer: bad frame''
      else if code = ErrCodeUnknownMarket then ''peer: unknown market''
      else if code = ErrCodeServerInternal then ''peer: server internal''
      else if code = ErrCodeNotStandby then ''peer: not standby''
      else ''peer: ack code 0x'' @ fmt_hex 2 (unat code))"

subsection \<open>Readers\<close>

text \<open>\<^verbatim>\<open>sliceReader\<close>, the reader over the body of a frame that the sink consumes.\<close>

record sliceReader =
  sr_b :: "byte list"
  sr_pos :: nat

definition bytesReader :: "byte list \<Rightarrow> sliceReader" where
  "bytesReader b = \<lparr>sr_b = b, sr_pos = 0\<rparr>"

definition sr_Read :: "sliceReader \<Rightarrow> nat \<Rightarrow> (byte list \<times> goerr option) \<times> sliceReader" where
  "sr_Read r n =
     (if sr_pos r \<ge> length (sr_b r) then (([], Some (Sentinel io_EOF)), r)
      else let bs = take n (drop (sr_pos r) (sr_b r)) in ((bs, None), r\<lparr>sr_pos := sr_pos r + length bs\<rparr>))"

interpretation slice: ranged_reader sr_Read "\<lambda>content off r. r = \<lparr>sr_b = content, sr_pos = off\<rparr>"
  by unfold_locales (auto simp: sr_Read_def Let_def take_min_length split: if_splits)

text \<open>
  A reader as \<open>readPooled\<close> sees it: the bytes to come, the error behind them (\<open>None\<close> is the end of file), how many
  bytes each of the next calls returns at most, and whether the end is reported with the last bytes or by a further
  call. Short reads and reads of no byte are covered by the schedule.
\<close>

record chunked =
  ch_data :: "byte list"
  ch_err :: "goerr option"
  ch_sched :: "nat list"
  ch_eager :: bool

definition ch_end :: "chunked \<Rightarrow> goerr" where
  "ch_end r = (case ch_err r of None \<Rightarrow> Sentinel io_EOF | Some e \<Rightarrow> e)"

definition ch_Read :: "chunked \<Rightarrow> nat \<Rightarrow> (byte list \<times> goerr option) \<times> chunked" where
  "ch_Read r n =
     (if ch_data r = [] then (([], Some (ch_end r)), r)
      else let k = (case ch_sched r of [] \<Rightarrow> n | k # _ \<Rightarrow> min k n);
               rest = drop k (ch_data r)
           in ((take k (ch_data r), if rest = [] \<and> ch_eager r then Some (ch_end r) else None),
               r\<lparr>ch_data := rest, ch_sched := tl (ch_sched r)\<rparr>))"

definition ltxPoolCap :: nat where
  "ltxPoolCap = 64 * 1024"

text \<open>
  The pool is the list of the capacities of the buffers in it. \<open>pool_Get\<close> takes one or makes a new one. A read returns
  the bytes and, unless the buffer was dropped, the capacity of the buffer that \<^verbatim>\<open>release\<close> gives back.
\<close>

definition pool_Get :: "nat list \<Rightarrow> nat \<times> nat list" where
  "pool_Get pool = (case pool of [] \<Rightarrow> (ltxPoolCap, []) | c # cs \<Rightarrow> (c, cs))"

definition putPooled :: "nat \<Rightarrow> nat list \<Rightarrow> nat list" where
  "putPooled c pool = (if c > ltxPoolCap then pool else c # pool)"

text \<open>
  The loop of \<open>readPooled\<close>. A Go slice with its spare capacity is the pair of its bytes and the number of bytes that
  can be added, so its capacity is the sum; \<open>grow\<close> makes room in a full buffer. An error comes with whether the
  buffer goes back to the pool: it does not when the read had already given it up.
\<close>

definition grow :: "byte list \<Rightarrow> nat \<Rightarrow> nat" where
  "grow buf free =
     (if free = 0
      then let newCap = length buf * 2; newCap = (if newCap = 0 then 4096 else newCap) in newCap - length buf
      else free)"

lemma grow_pos: "0 < grow buf free"
  by (cases buf) (auto simp: grow_def Let_def)

lemma ch_Read_less:
  "((bs, None), r') = ch_Read r n \<Longrightarrow> 0 < n \<Longrightarrow>
   length (ch_data r') + length (ch_sched r') < length (ch_data r) + length (ch_sched r)"
  by (auto simp: ch_Read_def Let_def split: if_splits list.splits)

function readPooled_loop :: "byte list \<Rightarrow> nat \<Rightarrow> chunked \<Rightarrow> (goerr \<times> bool) + byte list \<times> nat option" where
  "readPooled_loop buf free r =
     (let free = (if length buf + free = 0 then 4096 else free) in
      if free = 0 \<and> length buf \<ge> ltxPoolCap
      then (case ReadAll (ch_data r, ch_err r) of Inl e \<Rightarrow> Inl (e, False) | Inr rest \<Rightarrow> Inr (buf @ rest, None))
      else let free = grow buf free in
           case ch_Read r free of
             ((bs, None), r') \<Rightarrow> readPooled_loop (buf @ bs) (free - length bs) r'
           | ((bs, Some e), r') \<Rightarrow>
               if e = Sentinel io_EOF then Inr (buf @ bs, Some (length buf + free)) else Inl (e, True))"
  by pat_completeness auto
termination
  by (relation "measure (\<lambda>(_, _, r). length (ch_data r) + length (ch_sched r))") (auto dest: ch_Read_less simp: grow_pos)

declare readPooled_loop.simps [simp del]

definition readPooled :: "nat list \<Rightarrow> chunked \<Rightarrow> (goerr + byte list \<times> nat option) \<times> nat list" where
  "readPooled pool r =
     (let (c, pool) = pool_Get pool in
      case readPooled_loop [] c r of
        Inl (e, put) \<Rightarrow> (Inl e, if put then putPooled c pool else pool)
      | Inr res \<Rightarrow> (Inr res, pool))"

subsection \<open>The client\<close>

text \<open>\<open>call\<close> is \<^verbatim>\<open>Node.Call\<close>: it may change what is behind the node, the state \<open>'k\<close> of the standby.\<close>

type_synonym ('m, 'k) call = "'k \<Rightarrow> string \<Rightarrow> 'm option \<Rightarrow> (goerr + 'm option) \<times> 'k"

record ('m, 'k) PeerClient =
  pc_node :: "('m, 'k) call option"
  pc_peerID :: string
  pc_marketID :: MarketID
  pc_closed :: bool

definition NewReplicaClient :: "('m, 'k) call option \<Rightarrow> string \<Rightarrow> MarketID \<Rightarrow> ('m, 'k) PeerClient" where
  "NewReplicaClient node peerID marketID =
     \<lparr>pc_node = node, pc_peerID = peerID, pc_marketID = marketID, pc_closed = False\<rparr>"

definition pc_Close :: "('m, 'k) PeerClient \<Rightarrow> ('m, 'k) PeerClient" where
  "pc_Close c = c\<lparr>pc_closed := True\<rparr>"

text \<open>The checks of the acknowledgement.\<close>

definition check_ack :: "'m zap_api \<Rightarrow> ('m, 'k) PeerClient \<Rightarrow> txid \<Rightarrow> 'm option \<Rightarrow> goerr option" where
  "check_ack z c maxTXID resp =
     (case decodeWALFrameAck z resp of
        Inl e \<Rightarrow> Some (Wrapf ''peer: decode ack'' e)
      | Inr (code, ackID, ackTXID) \<Rightarrow>
          if code \<noteq> ErrCodeOK then Some (AckError code (unat ackTXID))
          else if ackID \<noteq> pc_marketID c then Some (Errorf ''peer: ack market mismatch'')
          else if ackTXID \<noteq> of_nat maxTXID then Some (Errorf ''peer: ack txid mismatch'')
          else None)"

definition peer_WriteLTXFile ::
  "'m zap_api \<Rightarrow> ('m, 'k) PeerClient \<Rightarrow> instant \<Rightarrow> nat list \<times> 'k \<Rightarrow> int \<Rightarrow> txid \<Rightarrow> txid \<Rightarrow> chunked \<Rightarrow>
   (goerr + FileInfo) \<times> nat list \<times> 'k" where
  "peer_WriteLTXFile z c now s level minTXID maxTXID r =
     (if pc_closed c then (Inl (Sentinel io_ErrClosedPipe), s)
      else case pc_node c of
        None \<Rightarrow> (Inl (Errorf ''peer: nil node''), s)
      | Some call \<Rightarrow>
          let (pool, k) = s in
          case readPooled pool r of
            (Inl e, pool) \<Rightarrow> (Inl (Wrapf ''peer: read ltx'' e), pool, k)
          | (Inr (body, buffer), pool) \<Rightarrow>
              let req = encodeWALFrameReq z (pc_marketID c) (of_nat maxTXID) body;
                  (resp, k) = call k (pc_peerID c) req;
                  pool = (case buffer of None \<Rightarrow> pool | Some b \<Rightarrow> putPooled b pool)
              in (case resp of
                    Inl e \<Rightarrow> Inl (Wrapf ''peer: ack call'' e)
                  | Inr resp \<Rightarrow>
                      (case check_ack z c maxTXID resp of
                         Some e \<Rightarrow> Inl e
                       | None \<Rightarrow> Inr \<lparr>FLevel = level, MinTXID = minTXID, MaxTXID = maxTXID, FSize = length body, CreatedAt = now\<rparr>),
                  pool, k))"

text \<open>The other operations of the interface: the peer is not a store.\<close>

definition peer_client :: "'m zap_api \<Rightarrow> ('m, 'k) PeerClient \<Rightarrow> instant \<Rightarrow> (nat list \<times> 'k) ReplicaClient" where
  "peer_client z c now =
     \<lparr>LTXFiles = (\<lambda>_ _ _ _. Inr \<lparr>iter_items = [], iter_err = None\<rparr>),
      OpenLTXFile = (\<lambda>_ _ _ _ _ _. Inl (Sentinel ErrUnexpectedEOF)),
      WriteLTXFile = (\<lambda>s level a b (bs, e). peer_WriteLTXFile z c now s level a b \<lparr>ch_data = bs, ch_err = e, ch_sched = [], ch_eager = False\<rparr>),
      DeleteLTXFiles = (\<lambda>s _. (None, s)),
      DeleteAll = (\<lambda>s. (None, s))\<rparr>"

subsection \<open>The server\<close>

text \<open>A call into the sink returns or panics; the state it leaves behind is kept in either case.\<close>

datatype 'a outcome = Returned 'a | Panicked

record 'k FrameSink =
  Apply :: "'k \<Rightarrow> MarketID \<Rightarrow> txid \<Rightarrow> sliceReader \<Rightarrow> goerr option outcome \<times> 'k"
  Snapshot :: "'k \<Rightarrow> MarketID \<Rightarrow> txid \<Rightarrow> (goerr + stream \<times> txid) outcome \<times> 'k"

record 'k Server =
  sv_sink :: "'k FrameSink option"
  sv_closed :: bool

definition NewServer :: "'k FrameSink option \<Rightarrow> 'k Server" where
  "NewServer sink = \<lparr>sv_sink = sink, sv_closed = False\<rparr>"

definition sv_Close :: "'k Server \<Rightarrow> 'k Server" where
  "sv_Close s = s\<lparr>sv_closed := True\<rparr>"

definition onWALFrame :: "'k Server \<Rightarrow> 'k \<Rightarrow> byte list \<Rightarrow> byte list \<times> 'k" where
  "onWALFrame s k payload =
     (case (if sv_closed s then None else sv_sink s) of
        None \<Rightarrow> (encodeAck ErrCodeNotStandby zeroMarket 0, k)
      | Some sink \<Rightarrow>
          (case decodeWALFrameReq payload of
             Inl e \<Rightarrow> (encodeAck ErrCodeBadFrame zeroMarket 0, k)
           | Inr (mkt, txid, body) \<Rightarrow>
               (case Apply sink k mkt (unat txid) (bytesReader body) of
                  (Panicked, k) \<Rightarrow> (encodeAck ErrCodeServerInternal zeroMarket 0, k)
                | (Returned (Some e), k) \<Rightarrow> (encodeAck ErrCodeServerInternal mkt txid, k)
                | (Returned None, k) \<Rightarrow> (encodeAck ErrCodeOK mkt txid, k))))"

definition onSnapshotReq :: "'k Server \<Rightarrow> 'k \<Rightarrow> byte list \<Rightarrow> byte list \<times> 'k" where
  "onSnapshotReq s k payload =
     (case (if sv_closed s then None else sv_sink s) of
        None \<Rightarrow> (encodeSnapshotResp ErrCodeNotStandby zeroMarket 0 [], k)
      | Some sink \<Rightarrow>
          (case decodeSnapshotReq payload of
             Inl e \<Rightarrow> (encodeSnapshotResp ErrCodeBadFrame zeroMarket 0 [], k)
           | Inr (mkt, fromTXID) \<Rightarrow>
               (case Snapshot sink k mkt (unat fromTXID) of
                  (Panicked, k) \<Rightarrow> (encodeSnapshotResp ErrCodeServerInternal zeroMarket 0 [], k)
                | (Returned (Inl e), k) \<Rightarrow>
                    (if errors_Is e io_EOF then encodeSnapshotResp ErrCodeOK mkt fromTXID []
                     else encodeSnapshotResp ErrCodeUnknownMarket mkt 0 [], k)
                | (Returned (Inr (rc, txid)), k) \<Rightarrow>
                    (case ReadAll rc of
                       Inl e \<Rightarrow> encodeSnapshotResp ErrCodeServerInternal mkt 0 []
                     | Inr body \<Rightarrow> encodeSnapshotResp ErrCodeOK mkt (of_nat txid) body, k))))"

text \<open>\<open>Register\<close> installs both handlers; \<open>reg\<close> is the dispatcher's method.\<close>

definition sv_Register ::
  "'k Server \<Rightarrow> ('d \<Rightarrow> 16 word \<Rightarrow> 16 word \<Rightarrow> ('k \<Rightarrow> byte list \<Rightarrow> byte list \<times> 'k) \<Rightarrow> goerr option \<times> 'd) option \<Rightarrow> 'd \<Rightarrow>
   goerr option \<times> 'd" where
  "sv_Register s reg d =
     (case reg of
        None \<Rightarrow> (Some (Errorf ''peer.Server.Register: nil dispatcher''), d)
      | Some reg \<Rightarrow>
          (case reg d OpWALFrame OpWALFrameAck (onWALFrame s) of
             (Some e, d) \<Rightarrow> (Some (Wrapf ''register WAL frame'' e), d)
           | (None, d) \<Rightarrow>
               (case reg d OpSnapshotReq OpSnapshotResp (onSnapshotReq s) of
                  (Some e, d) \<Rightarrow> (Some (Wrapf ''register snapshot'' e), d)
                | (None, d) \<Rightarrow> (None, d))))"

subsection \<open>Interfaces\<close>

text \<open>What the program relies on in the ZAP library: a message is built, and its root holds the payload.\<close>

locale zap_lib =
  fixes z :: "'m zap_api"
  assumes build: "\<exists>m. zap_Build z op p = Some m"
    and root: "zap_Build z op p = Some m \<Longrightarrow> \<not> zap_IsNull z m \<and> zap_Bytes z m = p"
begin

lemma wrapped: "\<exists>m. wrapMessage z op p = Some m \<and> \<not> zap_IsNull z m \<and> zap_Bytes z m = p"
  using build [of op p] root unfolding wrapMessage_def by blast

lemma decode_wrapped_ack: "market_ok mkt \<Longrightarrow> decodeWALFrameAck z (wrapMessage z op (encodeAck code mkt txid)) = Inr (code, mkt, txid)"
  using wrapped [of op "encodeAck code mkt txid"] by (auto simp: decodeWALFrameAck_def encodeAck_def wire_lens)

lemma decode_wrapped_snapshot:
  "market_ok mkt \<Longrightarrow> DecodeSnapshotResp z (wrapMessage z op (encodeSnapshotResp code mkt txid body)) = Inr (code, mkt, txid, body)"
  using wrapped [of op "encodeSnapshotResp code mkt txid body"]
  by (auto simp: DecodeSnapshotResp_def encodeSnapshotResp_def wire_lens)

end

text \<open>
  The link to the standby: a call that returns a message has run the handler of the standby once, on the payload of
  the request, and returns the handler's response. A call that fails may or may not have run it.
\<close>

locale peer_link = zap_lib z
  for z :: "'m zap_api" +
  fixes call :: "('m, 'k) call" and srv :: "'k Server"
  assumes delivered: "call k peer (Some m) = (Inr resp, k') \<Longrightarrow>
    \<exists>out. onWALFrame srv k (zap_Bytes z m) = (out, k') \<and> resp = wrapMessage z OpWALFrameAck out"

subsection \<open>The wire\<close>

lemma zeroMarket_ok [simp]: "market_ok zeroMarket"
  by (simp add: zeroMarket_def)

lemma length_encodeAck [simp]: "market_ok mkt \<Longrightarrow> length (encodeAck code mkt txid) = ackLen"
  by (simp add: encodeAck_def ackLen_def)

lemma decodeWALFrameReq_market: "decodeWALFrameReq p = Inr (mkt, txid, body) \<Longrightarrow> market_ok mkt"
  by (auto simp: decodeWALFrameReq_def wire_lens Let_def split: if_splits)

lemma Uint32_drop_Put [simp]: "length xs = n \<Longrightarrow> Uint32 bo (drop n (xs @ PutUint32 bo v @ ys)) = v"
  by simp

lemma decode_walFramePayload:
  assumes "market_ok mkt"
  shows "decodeWALFrameReq (walFramePayload mkt txid body) =
    (if length body < 2 ^ 32 then Inr (mkt, txid, body) else Inl (Errorf ''frame_len mismatch''))"
proof -
  have d12: "drop 12 (walFramePayload mkt txid body) = PutUint32 LittleEndian (of_nat (length body)) @ body"
    using assms by (simp add: walFramePayload_def)
  have d16: "drop 16 (walFramePayload mkt txid body) = body" using assms by (simp add: walFramePayload_def)
  have d8: "Uint32 LittleEndian (drop 8 (walFramePayload mkt txid body)) = txid" "take 8 (walFramePayload mkt txid body) = mkt"
    using assms by (simp_all add: walFramePayload_def)
  have len: "length (walFramePayload mkt txid body) = 16 + length body" using assms by (simp add: walFramePayload_def)
  have "unat (of_nat (length body) :: u32) = length body \<longleftrightarrow> length body < 2 ^ 32"
    by (simp add: unat_of_nat mod_eq_self_iff_div_eq_0 div_eq_0_iff)
  then show ?thesis
    by (simp add: decodeWALFrameReq_def wire_lens Let_def d12 d16 d8 len)
qed

lemma onWALFrame_cases:
  obtains (closed) "sv_closed srv \<or> sv_sink srv = None" "onWALFrame srv k p = (encodeAck ErrCodeNotStandby zeroMarket 0, k)"
  | (bad) e where "\<not> sv_closed srv" "decodeWALFrameReq p = Inl e" "onWALFrame srv k p = (encodeAck ErrCodeBadFrame zeroMarket 0, k)"
  | (failed) sink mkt txid body r k' m t where "\<not> sv_closed srv" "sv_sink srv = Some sink" "decodeWALFrameReq p = Inr (mkt, txid, body)"
      "Apply sink k mkt (unat txid) (bytesReader body) = (r, k')" "r \<noteq> Returned None" "market_ok m"
      "onWALFrame srv k p = (encodeAck ErrCodeServerInternal m t, k')"
  | (applied) sink mkt txid body k' where "\<not> sv_closed srv" "sv_sink srv = Some sink" "decodeWALFrameReq p = Inr (mkt, txid, body)"
      "Apply sink k mkt (unat txid) (bytesReader body) = (Returned None, k')" "onWALFrame srv k p = (encodeAck ErrCodeOK mkt txid, k')"
proof (cases "if sv_closed srv then None else sv_sink srv")
  case None
  then show thesis by (intro closed) (auto simp: onWALFrame_def split: if_splits)
next
  case sink: (Some sink)
  then have ok: "\<not> sv_closed srv" "sv_sink srv = Some sink" by (auto split: if_splits)
  show thesis
  proof (cases "decodeWALFrameReq p")
    case (Inl e)
    then show thesis using ok by (intro bad) (auto simp: onWALFrame_def)
  next
    case (Inr x)
    then obtain mkt txid body where d: "decodeWALFrameReq p = Inr (mkt, txid, body)" by (cases x) auto
    obtain r k' where r: "Apply sink k mkt (unat txid) (bytesReader body) = (r, k')" by (metis prod.exhaust)
    show thesis
    proof (cases "r = Returned None")
      case True
      then show thesis using ok d r by (intro applied) (auto simp: onWALFrame_def)
    next
      case False
      have "\<exists>m t. market_ok m \<and> onWALFrame srv k p = (encodeAck ErrCodeServerInternal m t, k')"
        using ok d r False decodeWALFrameReq_market [OF d]
        by (auto simp: onWALFrame_def intro: zeroMarket_ok split: outcome.splits option.splits)
      then show thesis using failed ok d r False by blast
    qed
  qed
qed

subsection \<open>The pooled read\<close>

lemma ch_Read_content:
  "ch_Read r n = ((bs, e), r') \<Longrightarrow>
   bs @ ch_data r' = ch_data r \<and> ch_err r' = ch_err r \<and> length bs \<le> n \<and>
   (\<forall>x. e = Some x \<longrightarrow> ch_data r' = [] \<and> x = ch_end r)"
  by (auto simp: ch_Read_def Let_def split: if_splits list.splits)

definition pool_ok :: "nat list \<Rightarrow> bool" where
  "pool_ok pool \<longleftrightarrow> (\<forall>c\<in>set pool. c \<le> ltxPoolCap)"

lemma pool_ok_put [simp]: "pool_ok pool \<Longrightarrow> pool_ok (putPooled c pool)"
  by (simp add: pool_ok_def putPooled_def)

lemma pool_ok_Get: "pool_Get pool = (c, pool') \<Longrightarrow> pool_ok pool \<Longrightarrow> c \<le> ltxPoolCap \<and> pool_ok pool'"
  by (auto simp: pool_Get_def pool_ok_def split: list.splits)

lemma readPooled_loop_whole:
  "ch_err r \<noteq> Some (Sentinel io_EOF) \<Longrightarrow>
   case ch_err r of
     None \<Rightarrow> \<exists>rel. readPooled_loop buf free r = Inr (buf @ ch_data r, rel)
   | Some e \<Rightarrow> \<exists>put. readPooled_loop buf free r = Inl (e, put)"
proof (induction "length (ch_data r) + length (ch_sched r)" arbitrary: buf free r rule: less_induct)
  case less
  let ?f = "if length buf + free = 0 then 4096 else free"
  let ?g = "grow buf ?f"
  show ?case
  proof (cases "?f = 0 \<and> length buf \<ge> ltxPoolCap")
    case True
    then show ?thesis by (auto simp: readPooled_loop.simps [of buf free r] ReadAll_def split: option.splits)
  next
    case False
    define g where "g = ?g"
    obtain bs e r' where rd: "ch_Read r g = ((bs, e), r')" by (metis prod.exhaust)
    note c = ch_Read_content [OF rd]
    have unf: "readPooled_loop buf free r = (case e of
        None \<Rightarrow> readPooled_loop (buf @ bs) (g - length bs) r'
      | Some e \<Rightarrow> if e = Sentinel io_EOF then Inr (buf @ bs, Some (length buf + g)) else Inl (e, True))"
      unfolding readPooled_loop.simps [of buf free r] Let_def if_not_P [OF False] g_def [symmetric] rd
      by (cases e) (simp_all only: option.case prod.case)
    show ?thesis
    proof (cases e)
      case None
      have "length (ch_data r') + length (ch_sched r') < length (ch_data r) + length (ch_sched r)"
        using ch_Read_less [OF rd [unfolded None, symmetric]] grow_pos by (simp add: g_def)
      from less.hyps [OF this, of "buf @ bs" "g - length bs"] less.prems c None unf show ?thesis
        by (simp add: c [THEN conjunct1, symmetric] split: option.splits)
    next
      case (Some x)
      with c less.prems unf show ?thesis by (auto simp: ch_end_def split: option.splits if_splits)
    qed
  qed
qed

lemma readPooled_result:
  assumes "ch_err r \<noteq> Some (Sentinel io_EOF)"
  shows "case ch_err r of
           None \<Rightarrow> \<exists>rel. fst (readPooled pool r) = Inr (ch_data r, rel)
         | Some e \<Rightarrow> fst (readPooled pool r) = Inl e"
proof -
  obtain c pool' where "pool_Get pool = (c, pool')" by (metis prod.exhaust)
  with readPooled_loop_whole [OF assms, of "[]" c] show ?thesis by (auto simp: readPooled_def split: option.splits)
qed

lemma readPooled_body: "ch_err r \<noteq> Some (Sentinel io_EOF) \<Longrightarrow> readPooled pool r = (Inr (body, rel), pool') \<Longrightarrow> body = ch_data r \<and> ch_err r = None"
  using readPooled_result [of r pool] by (auto split: option.splits)

lemma readPooled_pool: "pool_ok pool \<Longrightarrow> pool_ok (snd (readPooled pool r))"
  by (auto simp: readPooled_def split: prod.splits sum.splits dest: pool_ok_Get)

subsection \<open>Properties\<close>

text \<open>
  C25. The pooled read is exact for every way a reader may cut its data into calls: it returns all bytes of the reader
  or the reader's error, and the pool never holds a buffer above \<open>ltxPoolCap\<close>, also once the buffer is released.
\<close>

theorem readPooled_exact:
  assumes "ch_err r \<noteq> Some (Sentinel io_EOF)" and "pool_ok pool" and "readPooled pool r = (res, pool')"
  shows "(case res of Inl e \<Rightarrow> ch_err r = Some e | Inr (body, _) \<Rightarrow> ch_err r = None \<and> body = ch_data r) \<and>
         pool_ok pool' \<and> (\<forall>body c. res = Inr (body, Some c) \<longrightarrow> pool_ok (putPooled c pool'))"
  using readPooled_result [OF assms(1), of pool] readPooled_pool [OF assms(2), of r] assms(3)
  by (auto split: option.splits sum.splits)

theorem readPooled_exact_witness:
  "let r = \<lparr>ch_data = [1, 2, 3], ch_err = None, ch_sched = [0, 1], ch_eager = True\<rparr> in
   pool_ok [4] \<and> readPooled [4] r = (Inr ([1, 2, 3], Some 4), []) \<and> pool_ok (putPooled 4 [])"
proof -
  let ?r = "\<lparr>ch_data = [1, 2, 3], ch_err = None, ch_sched = [0, 1], ch_eager = True\<rparr>"
  have run: "readPooled [4] ?r = (Inr ([1, 2, 3], Some 4), [])"
    by (simp add: readPooled_def pool_Get_def readPooled_loop.simps ch_Read_def ch_end_def grow_def Let_def ltxPoolCap_def)
  have ok: "pool_ok [4]" by (simp add: pool_ok_def ltxPoolCap_def)
  from readPooled_exact [OF _ ok run] run ok show ?thesis by simp
qed

text \<open>
  C23. The acknowledgement is the standby's word: the handler always answers with a well-formed acknowledgement, also
  when the sink panics, and the code is OK exactly when the server is open, the frame is well formed and the sink
  has applied it without an error. A frame that is refused before the sink is called leaves the state alone.
\<close>

theorem onWALFrame_ack_exact:
  "length (fst (onWALFrame srv k p)) = ackLen \<and>
   (hd (fst (onWALFrame srv k p)) = ErrCodeOK \<longleftrightarrow>
      (\<exists>sink mkt txid body. \<not> sv_closed srv \<and> sv_sink srv = Some sink \<and> decodeWALFrameReq p = Inr (mkt, txid, body) \<and>
         fst (Apply sink k mkt (unat txid) (bytesReader body)) = Returned None)) \<and>
   (hd (fst (onWALFrame srv k p)) \<in> {ErrCodeNotStandby, ErrCodeBadFrame} \<longrightarrow> snd (onWALFrame srv k p) = k)"
proof -
  have codes: "ErrCodeServerInternal \<noteq> ErrCodeOK" "ErrCodeNotStandby \<noteq> ErrCodeOK" "ErrCodeBadFrame \<noteq> ErrCodeOK"
      "ErrCodeServerInternal \<notin> {ErrCodeNotStandby, ErrCodeBadFrame}" "ErrCodeOK \<notin> {ErrCodeNotStandby, ErrCodeBadFrame}"
    by (simp_all add: err_codes)
  show ?thesis
  proof (cases rule: onWALFrame_cases [of srv k p])
    case closed
    then show ?thesis using codes by (auto simp: encodeAck_def ackLen_def)
  next
    case (bad e)
    then show ?thesis using codes by (auto simp: encodeAck_def ackLen_def)
  next
    case (failed sink mkt txid body r k' m t)
    then show ?thesis using codes by (auto simp: encodeAck_def ackLen_def)
  next
    case (applied sink mkt txid body k')
    then show ?thesis using codes decodeWALFrameReq_market [OF applied(3)] by (auto simp: encodeAck_def ackLen_def)
  qed
qed

theorem onWALFrame_ack_exact_witness:
  "length (fst (onWALFrame (NewServer None) (7 :: nat) [1])) = ackLen \<and>
   hd (fst (onWALFrame (NewServer None) (7 :: nat) [1])) = ErrCodeNotStandby \<and> snd (onWALFrame (NewServer None) (7 :: nat) [1]) = 7"
proof -
  have "hd (fst (onWALFrame (NewServer None) (7 :: nat) [1])) = ErrCodeNotStandby"
    by (simp add: onWALFrame_def NewServer_def encodeAck_def)
  with onWALFrame_ack_exact [of "NewServer None" "7 :: nat" "[1]"] show ?thesis by auto
qed


text \<open>A concrete library and a node in the same process, for the witness.\<close>

definition doc_zap :: "(16 word \<times> byte list) zap_api" where
  "doc_zap = \<lparr>zap_Build = (\<lambda>op p. Some (op, p)), zap_IsNull = (\<lambda>_. False), zap_Bytes = snd\<rparr>"

definition local_call :: "'k Server \<Rightarrow> (16 word \<times> byte list, 'k) call" where
  "local_call srv k peer msg =
     (case msg of
        None \<Rightarrow> (Inl (Errorf ''nil message''), k)
      | Some (op, p) \<Rightarrow> (let (out, k) = onWALFrame srv k p in (Inr (wrapMessage doc_zap OpWALFrameAck out), k)))"

interpretation local_link: peer_link doc_zap "local_call srv" srv for srv
  by unfold_locales (auto simp: doc_zap_def local_call_def Let_def split: prod.splits)

definition list_sink :: "(MarketID \<times> txid \<times> byte list) list FrameSink" where
  "list_sink =
     \<lparr>Apply = (\<lambda>k mkt txid rd. (Returned None, k @ [(mkt, txid, drop (sr_pos rd) (sr_b rd))])),
      Snapshot = (\<lambda>k mkt txid. (Returned (Inl (Sentinel io_EOF)), k))\<rparr>"


text \<open>
  C24. What is encoded is decoded again: the request, the acknowledgement, the snapshot request and the snapshot
  response come back unchanged through the wire, a frame body of \<open>2 ^ 32\<close> bytes or more excepted, which the standby
  refuses as a bad frame.
\<close>

theorem peer_wire_roundtrip:
  assumes "zap_lib z" and "market_ok mkt"
  shows "decodeWALFrameReq (walFramePayload mkt txid body) =
           (if length body < 2 ^ 32 then Inr (mkt, txid, body) else Inl (Errorf ''frame_len mismatch'')) \<and>
         decodeWALFrameAck z (wrapMessage z OpWALFrameAck (encodeAck code mkt txid)) = Inr (code, mkt, txid) \<and>
         (\<exists>m. encodeSnapshotReq z mkt t64 = Some m \<and> decodeSnapshotReq (zap_Bytes z m) = Inr (mkt, t64)) \<and>
         DecodeSnapshotResp z (wrapMessage z OpSnapshotResp (encodeSnapshotResp code mkt t64 body)) = Inr (code, mkt, t64, body)"
proof -
  obtain m where "encodeSnapshotReq z mkt t64 = Some m" "zap_Bytes z m = mkt @ PutUint64 LittleEndian t64"
    using zap_lib.wrapped [OF assms(1)] unfolding encodeSnapshotReq_def by blast
  then show ?thesis
    using assms zap_lib.decode_wrapped_ack [OF assms] zap_lib.decode_wrapped_snapshot [OF assms] decode_walFramePayload [OF assms(2)]
    by (simp add: decodeSnapshotReq_def wire_lens)
qed

theorem peer_wire_roundtrip_witness:
  "decodeWALFrameReq (walFramePayload [1, 2, 3, 4, 5, 6, 7, 8] 300 [42]) = Inr ([1, 2, 3, 4, 5, 6, 7, 8], 300, [42])"
proof -
  have "market_ok [1, 2, 3, 4, 5, 6, 7, 8]" by simp
  from peer_wire_roundtrip [OF local_link.zap_lib_axioms this, THEN conjunct1, of 300 "[42]"] show ?thesis by simp
qed

end
