(* ===== verification/Lease.thy ===== *)
theory Lease
  imports GoErr
begin

text \<open>
  Leases (\<^verbatim>\<open>src/leaser.go\<close>) and the two leasers of the program: the one on S3 with conditional requests
  (\<^verbatim>\<open>src/s3/leaser.go\<close>) and the one on a lock file (\<^verbatim>\<open>src/file/leaser.go\<close>). The JSON text of a lease is the codec
  \<open>cd\<close>, with the round trip as the locale \<open>lease_codec\<close>; the S3 service is the record \<open>S3API\<close> with its documented
  conditional semantics as the locale \<open>s3_store\<close>.
\<close>

record Lease =
  Generation :: int
  ExpiresAt :: instant
  Owner :: string
  ETag :: string

definition IsExpired :: "instant \<Rightarrow> Lease \<Rightarrow> bool" where
  "IsExpired now l \<longleftrightarrow> now > ExpiresAt l"

definition lease_TTL :: "instant \<Rightarrow> Lease \<Rightarrow> duration" where
  "lease_TTL now l = ExpiresAt l - now"

text \<open>Addition on \<^verbatim>\<open>int64\<close>.\<close>

definition int64_add :: "int \<Rightarrow> int \<Rightarrow> int" where
  "int64_add a b = (a + b + 2 ^ 63) mod 2 ^ 64 - 2 ^ 63"

record codec_json =
  json_Marshal :: "Lease \<Rightarrow> goerr + byte list"
  json_Unmarshal :: "byte list \<Rightarrow> goerr + Lease"

locale lease_codec =
  fixes cd :: codec_json
  assumes unmarshal: "json_Marshal cd l = Inr b \<Longrightarrow> json_Unmarshal cd b = Inr (l\<lparr>ETag := ''''\<rparr>)"
    and untagged: "json_Unmarshal cd b = Inr l \<Longrightarrow> ETag l = ''''"

text \<open>The fields of both leasers; \<open>ls_Dir\<close> is used by the file leaser only.\<close>

record Leaser =
  ls_Dir :: string
  ls_Path :: string
  ls_TTL :: duration
  ls_MaxTTL :: duration
  ls_Owner :: string

definition DefaultLeaseTTL :: duration where
  "DefaultLeaseTTL = 30 * second"

definition DefaultLeaseMaxTTL :: duration where
  "DefaultLeaseMaxTTL = 30 * second"

definition maxTTL :: "Leaser \<Rightarrow> duration" where
  "maxTTL l = (if ls_MaxTTL l \<le> 0 then DefaultLeaseMaxTTL else ls_MaxTTL l)"

text \<open>The decision of \<open>AcquireLease\<close> on what was read: an error, or the lease to write and the ETag to match.
  \<open>now1\<close> and \<open>now2\<close> are the two readings of the clock.\<close>

definition acquire_decide :: "Leaser \<Rightarrow> instant \<Rightarrow> instant \<Rightarrow> goerr + Lease \<times> string \<Rightarrow> goerr + Lease \<times> string" where
  "acquire_decide l now1 now2 r =
     (case r of
        Inl err \<Rightarrow>
          if errors_Is err os_ErrNotExist
          then Inr (\<lparr>Generation = 1, ExpiresAt = now2 + ls_TTL l, Owner = ls_Owner l, ETag = ''''\<rparr>, '''')
          else Inl (Wrapf ''read existing lease'' err)
      | Inr (existing, etag) \<Rightarrow>
          if \<not> IsExpired now1 existing then Inl (LeaseExistsError (Owner existing) (ExpiresAt existing))
          else Inr (\<lparr>Generation = int64_add (Generation existing) 1, ExpiresAt = now2 + ls_TTL l, Owner = ls_Owner l, ETag = ''''\<rparr>, etag))"

text \<open>The error of a failed write: when another process was faster, the error names the lease read again.\<close>

definition acquire_failed :: "goerr \<Rightarrow> goerr + Lease \<times> string \<Rightarrow> goerr" where
  "acquire_failed err again =
     (if as_LeaseExists err
      then (case again of Inr (current, _) \<Rightarrow> LeaseExistsError (Owner current) (ExpiresAt current) | Inl _ \<Rightarrow> err)
      else err)"

definition renewed :: "Leaser \<Rightarrow> instant \<Rightarrow> Lease \<Rightarrow> Lease" where
  "renewed l now lease = \<lparr>Generation = Generation lease, ExpiresAt = now + ls_TTL l, Owner = ls_Owner l, ETag = ''''\<rparr>"

subsection \<open>The S3 leaser\<close>

datatype put_cond = IfNoneMatch | IfMatch string

record 's S3API =
  GetObject :: "'s \<Rightarrow> string \<Rightarrow> goerr + byte list \<times> string option"
  PutObject :: "'s \<Rightarrow> string \<Rightarrow> byte list \<Rightarrow> put_cond \<Rightarrow> (goerr + string option) \<times> 's"
  DeleteObject :: "'s \<Rightarrow> string \<Rightarrow> string \<Rightarrow> goerr option \<times> 's"

definition isNotExists :: "goerr \<Rightarrow> bool" where
  "isNotExists err \<longleftrightarrow> as_APIError err = Some ''NoSuchKey''"

definition isPreconditionFailed :: "goerr \<Rightarrow> bool" where
  "isPreconditionFailed err \<longleftrightarrow>
     (case as_APIError err of
        Some code \<Rightarrow> code = ''PreconditionFailed'' \<or> code = ''412''
      | None \<Rightarrow> (case as_OperationError err of Some (Some st) \<Rightarrow> st = 412 | _ \<Rightarrow> False))"

text \<open>\<^verbatim>\<open>types.NoSuchKey\<close> is an \<^verbatim>\<open>APIError\<close> itself, with code \<^verbatim>\<open>NoSuchKey\<close>.\<close>

definition isNotFoundError :: "goerr \<Rightarrow> bool" where
  "isNotFoundError err \<longleftrightarrow>
     (case as_APIError err of
        Some code \<Rightarrow> code = ''NoSuchKey'' \<or> code = ''NotFound'' \<or> code = ''404''
      | None \<Rightarrow> (case as_OperationError err of Some (Some st) \<Rightarrow> st = 404 | _ \<Rightarrow> False))"

definition DefaultLeasePath :: string where
  "DefaultLeasePath = ''lock.json''"

definition lockKey :: "Leaser \<Rightarrow> string" where
  "lockKey l = (if ls_Path l = '''' then DefaultLeasePath else ls_Path l @ ''/'' @ DefaultLeasePath)"

definition s3_readLease :: "codec_json \<Rightarrow> 's S3API \<Rightarrow> Leaser \<Rightarrow> 's \<Rightarrow> goerr + Lease \<times> string" where
  "s3_readLease cd api l s =
     (case GetObject api s (lockKey l) of
        Inl err \<Rightarrow> Inl (if isNotExists err \<or> isNotFoundError err then Sentinel os_ErrNotExist else Wrapf ''get lock file'' err)
      | Inr (body, tag) \<Rightarrow>
          (case json_Unmarshal cd body of
             Inl err \<Rightarrow> Inl (Wrapf ''decode lock file'' err)
           | Inr lease \<Rightarrow>
               let etag = (case tag of None \<Rightarrow> '''' | Some e \<Rightarrow> e) in Inr (lease\<lparr>ETag := etag\<rparr>, etag)))"

definition s3_writeLease :: "codec_json \<Rightarrow> 's S3API \<Rightarrow> Leaser \<Rightarrow> 's \<Rightarrow> Lease \<Rightarrow> string \<Rightarrow> (goerr + string) \<times> 's" where
  "s3_writeLease cd api l s lease etag =
     (case json_Marshal cd lease of
        Inl err \<Rightarrow> (Inl (Wrapf ''marshal lock file'' err), s)
      | Inr data \<Rightarrow>
          (case PutObject api s (lockKey l) data (if etag = '''' then IfNoneMatch else IfMatch etag) of
             (Inl err, s) \<Rightarrow>
               (Inl (if isPreconditionFailed err then LeaseExistsError '''' 0 else Wrapf ''put lock file'' err), s)
           | (Inr tag, s) \<Rightarrow> (Inr (case tag of None \<Rightarrow> '''' | Some e \<Rightarrow> e), s)))"

definition s3_AcquireLease ::
  "codec_json \<Rightarrow> 's S3API \<Rightarrow> Leaser \<Rightarrow> instant \<Rightarrow> instant \<Rightarrow> 's \<Rightarrow> (goerr + Lease) \<times> 's" where
  "s3_AcquireLease cd api l now1 now2 s =
     (case acquire_decide l now1 now2 (s3_readLease cd api l s) of
        Inl err \<Rightarrow> (Inl err, s)
      | Inr (newLease, etag) \<Rightarrow>
          (case s3_writeLease cd api l s newLease etag of
             (Inl err, s) \<Rightarrow> (Inl (acquire_failed err (s3_readLease cd api l s)), s)
           | (Inr newETag, s) \<Rightarrow> (Inr (newLease\<lparr>ETag := newETag\<rparr>), s)))"

text \<open>The pointer to a lease may be nil.\<close>

definition s3_RenewLease ::
  "codec_json \<Rightarrow> 's S3API \<Rightarrow> Leaser \<Rightarrow> instant \<Rightarrow> 's \<Rightarrow> Lease option \<Rightarrow> (goerr + Lease) \<times> 's" where
  "s3_RenewLease cd api l now s lease =
     (case lease of
        None \<Rightarrow> (Inl (Sentinel ErrLeaseRequired), s)
      | Some lease \<Rightarrow>
          if ETag lease = '''' then (Inl (Sentinel ErrLeaseETagRequired), s)
          else let newLease = renewed l now lease in
            (case s3_writeLease cd api l s newLease (ETag lease) of
               (Inl err, s) \<Rightarrow> (Inl (if as_LeaseExists err then Sentinel ErrLeaseNotHeld else err), s)
             | (Inr newETag, s) \<Rightarrow> (Inr (newLease\<lparr>ETag := newETag\<rparr>), s)))"

definition s3_ReleaseLease :: "'s S3API \<Rightarrow> Leaser \<Rightarrow> 's \<Rightarrow> Lease option \<Rightarrow> goerr option \<times> 's" where
  "s3_ReleaseLease api l s lease =
     (case lease of
        None \<Rightarrow> (Some (Sentinel ErrLeaseRequired), s)
      | Some lease \<Rightarrow>
          if ETag lease = '''' then (Some (Sentinel ErrLeaseETagRequired), s)
          else case DeleteObject api s (lockKey l) (ETag lease) of
            (Some err, s) \<Rightarrow>
              (Some (if isNotExists err \<or> isNotFoundError err then Sentinel ErrLeaseAlreadyReleased
                     else if isPreconditionFailed err then Sentinel ErrLeaseNotHeld
                     else Wrapf ''delete lease'' err), s)
          | (None, s) \<Rightarrow> (None, s))"

subsection \<open>Several processes on one lock object\<close>

text \<open>
  What S3 documents of conditional requests: \<open>obj s\<close> is the lock object with its ETag. A write takes effect only if
  its condition holds at that moment, also when its response is lost; a delete with \<open>IfMatch\<close> removes only the
  object with that ETag. The ETag of an object is a digest of its content, so that equal ETags mean equal
  content (\<open>body_of\<close>).
\<close>

fun cond_holds :: "put_cond \<Rightarrow> (byte list \<times> string) option \<Rightarrow> bool" where
  "cond_holds IfNoneMatch ob \<longleftrightarrow> ob = None"
| "cond_holds (IfMatch e) ob \<longleftrightarrow> (\<exists>b. ob = Some (b, e))"

locale s3_store = lease_codec cd
  for cd +
  fixes api :: "'s S3API" and obj :: "'s \<Rightarrow> (byte list \<times> string) option" and body_of :: "string \<Rightarrow> byte list" and key :: string
  assumes get_ok: "GetObject api s key = Inr (b, tag) \<Longrightarrow> \<exists>e. tag = Some e \<and> e \<noteq> '''' \<and> obj s = Some (b, e)"
    and put_ok: "PutObject api s key b c = (Inr tag, s') \<Longrightarrow>
      cond_holds c (obj s) \<and> (\<exists>e. tag = Some e \<and> e \<noteq> '''' \<and> obj s' = Some (b, e))"
    and put_err: "PutObject api s key b c = (Inl err, s') \<Longrightarrow>
      obj s' = obj s \<or> cond_holds c (obj s) \<and> (\<exists>e. obj s' = Some (b, e))"
    and delete: "DeleteObject api s key e = (r, s') \<Longrightarrow> obj s' = obj s \<or> obj s' = None \<and> (\<exists>b. obj s = Some (b, e))"
    and delete_ok: "DeleteObject api s key e = (None, s') \<Longrightarrow> obj s' = None \<and> (\<exists>b. obj s = Some (b, e))"
    and digest: "obj s = Some (b, e) \<Longrightarrow> body_of e = b"

text \<open>
  Any number of processes share the lock object. \<open>held p\<close> is the lease process \<open>p\<close> was given last and has not
  released; \<open>stage p\<close> is where it is in a call: \<open>AcquireLease\<close> has read the object, or \<open>AcquireLease\<close> or \<open>RenewLease\<close>
  is about to write a lease and match an ETag. Between two steps of one process anything may happen elsewhere.
\<close>

datatype stage = Idle | HasRead "goerr + Lease \<times> string" | Writing Lease string

record 's lsys =
  store :: 's
  clock :: instant
  held :: "nat \<Rightarrow> Lease option"
  stage :: "nat \<Rightarrow> stage"

inductive lstep :: "codec_json \<Rightarrow> 's S3API \<Rightarrow> (nat \<Rightarrow> Leaser) \<Rightarrow> 's lsys \<Rightarrow> 's lsys \<Rightarrow> bool" for cd api cfg where
  tick: "clock st \<le> t \<Longrightarrow> lstep cd api cfg st (st\<lparr>clock := t\<rparr>)"
| acquire_read: "stage st p = Idle \<Longrightarrow>
    lstep cd api cfg st (st\<lparr>stage := (stage st)(p := HasRead (s3_readLease cd api (cfg p) (store st)))\<rparr>)"
| acquire_refused: "stage st p = HasRead r \<Longrightarrow> acquire_decide (cfg p) now1 (clock st) r = Inl err \<Longrightarrow>
    lstep cd api cfg st (st\<lparr>stage := (stage st)(p := Idle)\<rparr>)"
| acquire_decided: "stage st p = HasRead r \<Longrightarrow> now1 \<le> clock st \<Longrightarrow> acquire_decide (cfg p) now1 (clock st) r = Inr (nl, et) \<Longrightarrow>
    lstep cd api cfg st (st\<lparr>stage := (stage st)(p := Writing nl et)\<rparr>)"
| renew: "stage st p = Idle \<Longrightarrow> held st p = Some le \<Longrightarrow> ETag le \<noteq> '''' \<Longrightarrow>
    lstep cd api cfg st (st\<lparr>stage := (stage st)(p := Writing (renewed (cfg p) (clock st) le) (ETag le))\<rparr>)"
| written: "stage st p = Writing nl et \<Longrightarrow> s3_writeLease cd api (cfg p) (store st) nl et = (Inr e, s') \<Longrightarrow>
    lstep cd api cfg st (st\<lparr>store := s', held := (held st)(p := Some (nl\<lparr>ETag := e\<rparr>)), stage := (stage st)(p := Idle)\<rparr>)"
| failed: "stage st p = Writing nl et \<Longrightarrow> s3_writeLease cd api (cfg p) (store st) nl et = (Inl err, s') \<Longrightarrow>
    lstep cd api cfg st (st\<lparr>store := s', stage := (stage st)(p := Idle)\<rparr>)"
| release: "stage st p = Idle \<Longrightarrow> held st p = Some le \<Longrightarrow> s3_ReleaseLease api (cfg p) (store st) (Some le) = (r, s') \<Longrightarrow>
    lstep cd api cfg st (st\<lparr>store := s', held := (held st)(p := None)\<rparr>)"

abbreviation lreach :: "codec_json \<Rightarrow> 's S3API \<Rightarrow> (nat \<Rightarrow> Leaser) \<Rightarrow> 's lsys \<Rightarrow> 's lsys \<Rightarrow> bool" where
  "lreach cd api cfg \<equiv> (lstep cd api cfg)\<^sup>*\<^sup>*"

definition valid_lease :: "'s lsys \<Rightarrow> nat \<Rightarrow> bool" where
  "valid_lease st p \<longleftrightarrow> (\<exists>le. held st p = Some le \<and> \<not> IsExpired (clock st) le)"

text \<open>The calls of a process that nobody interrupts are sequences of these steps.\<close>

lemma AcquireLease_steps:
  assumes "s3_AcquireLease cd api (cfg p) (clock st) (clock st) (store st) = (Inr le, s')" and "stage st p = Idle"
  shows "lreach cd api cfg st (st\<lparr>store := s', held := (held st)(p := Some le)\<rparr>)"
proof -
  let ?r = "s3_readLease cd api (cfg p) (store st)"
  obtain nl et e where d: "acquire_decide (cfg p) (clock st) (clock st) ?r = Inr (nl, et)"
      "s3_writeLease cd api (cfg p) (store st) nl et = (Inr e, s')" "le = nl\<lparr>ETag := e\<rparr>"
    using assms(1) by (auto simp: s3_AcquireLease_def split: sum.splits prod.splits)
  let ?st1 = "st\<lparr>stage := (stage st)(p := HasRead ?r)\<rparr>" and ?st2 = "st\<lparr>stage := (stage st)(p := Writing nl et)\<rparr>"
  have "lstep cd api cfg st ?st1" by (rule lstep.acquire_read [OF assms(2)])
  moreover have "lstep cd api cfg ?st1 (?st1\<lparr>stage := (stage ?st1)(p := Writing nl et)\<rparr>)"
    by (rule lstep.acquire_decided [of _ _ ?r "clock st"]) (simp_all add: d(1))
  moreover have "lstep cd api cfg ?st2 (?st2\<lparr>store := s', held := (held ?st2)(p := Some (nl\<lparr>ETag := e\<rparr>)), stage := (stage ?st2)(p := Idle)\<rparr>)"
    using d(2) by (intro lstep.written) auto
  ultimately show ?thesis
    using d(3) assms(2) by (simp add: fun_upd_idem)
qed

text \<open>
  The invariant. A lease that is still valid for its holder is backed by the object: the object is a lease of
  the same owner that does not expire earlier. What a process has read or is about to match is the content behind the
  ETag: an expired lease or one of its own.
\<close>

definition own_lease :: "codec_json \<Rightarrow> (nat \<Rightarrow> Leaser) \<Rightarrow> byte list \<Rightarrow> nat \<Rightarrow> instant \<Rightarrow> bool" where
  "own_lease cd cfg b p t \<longleftrightarrow> (\<exists>le. json_Unmarshal cd b = Inr le \<and> Owner le = ls_Owner (cfg p) \<and> t \<le> ExpiresAt le)"

definition old_lease :: "codec_json \<Rightarrow> byte list \<Rightarrow> instant \<Rightarrow> bool" where
  "old_lease cd b t \<longleftrightarrow> (\<exists>le. json_Unmarshal cd b = Inr le \<and> ExpiresAt le < t)"

definition held_inv :: "codec_json \<Rightarrow> (nat \<Rightarrow> Leaser) \<Rightarrow> (string \<Rightarrow> byte list) \<Rightarrow> 's lsys \<Rightarrow> nat \<Rightarrow> bool" where
  "held_inv cd cfg body_of st p \<longleftrightarrow>
     (\<forall>le. held st p = Some le \<longrightarrow> own_lease cd cfg (body_of (ETag le)) p (ExpiresAt le) \<and> ExpiresAt le \<le> clock st + ls_TTL (cfg p))"

definition backed :: "codec_json \<Rightarrow> (nat \<Rightarrow> Leaser) \<Rightarrow> (byte list \<times> string) option \<Rightarrow> 's lsys \<Rightarrow> nat \<Rightarrow> bool" where
  "backed cd cfg ob st p \<longleftrightarrow>
     (\<forall>le. held st p = Some le \<and> \<not> IsExpired (clock st) le \<longrightarrow> (\<exists>b e. ob = Some (b, e) \<and> own_lease cd cfg b p (ExpiresAt le)))"

fun stage_inv :: "codec_json \<Rightarrow> (nat \<Rightarrow> Leaser) \<Rightarrow> (string \<Rightarrow> byte list) \<Rightarrow> 's lsys \<Rightarrow> nat \<Rightarrow> stage \<Rightarrow> bool" where
  "stage_inv cd cfg body_of st p Idle \<longleftrightarrow> True"
| "stage_inv cd cfg body_of st p (HasRead r) \<longleftrightarrow>
     (\<forall>old et. r = Inr (old, et) \<longrightarrow> et \<noteq> '''' \<and> (\<exists>le. json_Unmarshal cd (body_of et) = Inr le \<and> ExpiresAt le = ExpiresAt old))"
| "stage_inv cd cfg body_of st p (Writing nl et) \<longleftrightarrow>
     Owner nl = ls_Owner (cfg p) \<and> ExpiresAt nl \<le> clock st + ls_TTL (cfg p) \<and>
     (\<forall>le. held st p = Some le \<longrightarrow> ExpiresAt le \<le> ExpiresAt nl) \<and>
     (et = '''' \<or> old_lease cd (body_of et) (clock st) \<or> (\<exists>le. json_Unmarshal cd (body_of et) = Inr le \<and> Owner le = ls_Owner (cfg p)))"

definition linv :: "codec_json \<Rightarrow> (nat \<Rightarrow> Leaser) \<Rightarrow> ('s \<Rightarrow> (byte list \<times> string) option) \<Rightarrow> (string \<Rightarrow> byte list) \<Rightarrow> 's lsys \<Rightarrow> bool" where
  "linv cd cfg obj body_of st \<longleftrightarrow>
     (\<forall>p. held_inv cd cfg body_of st p \<and> backed cd cfg (obj (store st)) st p \<and> stage_inv cd cfg body_of st p (stage st p))"

lemma linv_tick: "linv cd cfg obj body_of st \<Longrightarrow> clock st \<le> t \<Longrightarrow> linv cd cfg obj body_of (st\<lparr>clock := t\<rparr>)"
  unfolding linv_def
proof (intro allI conjI)
  fix p assume a: "\<forall>p. held_inv cd cfg body_of st p \<and> backed cd cfg (obj (store st)) st p \<and> stage_inv cd cfg body_of st p (stage st p)"
    and t: "clock st \<le> t"
  then have h: "held_inv cd cfg body_of st p" "backed cd cfg (obj (store st)) st p" "stage_inv cd cfg body_of st p (stage st p)" by simp_all
  show "held_inv cd cfg body_of (st\<lparr>clock := t\<rparr>) p" using h(1) t by (fastforce simp: held_inv_def)
  show "backed cd cfg (obj (store (st\<lparr>clock := t\<rparr>))) (st\<lparr>clock := t\<rparr>) p" using h(2) t by (fastforce simp: backed_def IsExpired_def)
  show "stage_inv cd cfg body_of (st\<lparr>clock := t\<rparr>) p (stage (st\<lparr>clock := t\<rparr>) p)"
    using h(3) t by (cases "stage st p") (fastforce simp: old_lease_def)+
qed

lemma linv_stage:
  "linv cd cfg obj body_of st \<Longrightarrow> stage_inv cd cfg body_of st p x \<Longrightarrow> linv cd cfg obj body_of (st\<lparr>stage := (stage st)(p := x)\<rparr>)"
proof -
  have "stage_inv cd cfg body_of (st\<lparr>stage := f\<rparr>) q y = stage_inv cd cfg body_of st q y" for f q y
    by (cases y) simp_all
  then show "linv cd cfg obj body_of st \<Longrightarrow> stage_inv cd cfg body_of st p x \<Longrightarrow> ?thesis"
    by (simp add: linv_def held_inv_def backed_def)
qed

context s3_store
begin

lemma read_effect:
  assumes "s3_readLease cd api l s = Inr (old, et)" and "lockKey l = key"
  shows "et \<noteq> '''' \<and> (\<exists>le. json_Unmarshal cd (body_of et) = Inr le \<and> ExpiresAt le = ExpiresAt old)"
proof -
  obtain b tag le where g: "GetObject api s key = Inr (b, tag)" "json_Unmarshal cd b = Inr le" "et = (case tag of None \<Rightarrow> '''' | Some e \<Rightarrow> e)"
      "old = le\<lparr>ETag := et\<rparr>"
    using assms by (auto simp: s3_readLease_def Let_def split: sum.splits)
  obtain e where e: "tag = Some e" "e \<noteq> ''''" "obj s = Some (b, e)" using get_ok [OF g(1)] by blast
  then show ?thesis using g digest [OF e(3)] by simp
qed

text \<open>A write either leaves the object alone and fails, or its condition held and the object is the new lease.\<close>

lemma write_effect:
  assumes "s3_writeLease cd api l s nl et = (r, s')" and "lockKey l = key"
  shows "obj s' = obj s \<and> (\<exists>err. r = Inl err) \<or>
         (obj s = None \<and> et = '''' \<or> obj s = Some (body_of et, et) \<and> et \<noteq> '''') \<and>
         (\<exists>b e. obj s' = Some (b, e) \<and> json_Unmarshal cd b = Inr (nl\<lparr>ETag := ''''\<rparr>) \<and> (\<forall>x. r = Inr x \<longrightarrow> x = e))"
proof (cases "json_Marshal cd nl")
  case (Inl err)
  then show ?thesis using assms(1) by (auto simp: s3_writeLease_def)
next
  case (Inr data)
  let ?c = "if et = '''' then IfNoneMatch else IfMatch et"
  note um = unmarshal [OF Inr]
  have cond: "cond_holds ?c (obj s) \<Longrightarrow> obj s = None \<and> et = '''' \<or> obj s = Some (body_of et, et) \<and> et \<noteq> ''''"
    using digest by (auto split: if_splits)
  obtain pr where put: "PutObject api s key data ?c = (pr, s')" "(\<exists>err. pr = Inl err \<and> (\<exists>e. r = Inl e)) \<or> (\<exists>tag. pr = Inr tag \<and> r = Inr (case tag of None \<Rightarrow> '''' | Some e \<Rightarrow> e))"
    using assms Inr by (auto simp: s3_writeLease_def split: sum.splits prod.splits)
  show ?thesis
  proof (cases pr)
    case (Inl err)
    then show ?thesis using put put_err [of s data ?c err s'] cond um by auto
  next
    case (Inr tag)
    then show ?thesis using put put_ok [of s data ?c tag s'] cond um by auto
  qed
qed

lemma release_effect:
  assumes "s3_ReleaseLease api l s (Some le) = (r, s')" and "lockKey l = key"
  shows "obj s' = obj s \<or> obj s' = None \<and> obj s = Some (body_of (ETag le), ETag le)"
proof -
  have "s' = s \<or> (\<exists>r'. DeleteObject api s key (ETag le) = (r', s'))"
    using assms by (auto simp: s3_ReleaseLease_def split: if_splits prod.splits option.splits)
  then show ?thesis using delete [of s "ETag le" _ s'] digest by (elim disjE exE) auto
qed

end

context s3_store
begin

text \<open>When the condition of a pending write holds, no other process has a valid lease.\<close>

lemma writer_alone:
  assumes "linv cd cfg obj body_of st" and "inj (ls_Owner \<circ> cfg)" and "stage st p = Writing nl et"
    and "obj (store st) = None \<and> et = '''' \<or> obj (store st) = Some (body_of et, et) \<and> et \<noteq> ''''"
    and "held st q = Some le" and "\<not> IsExpired (clock st) le"
  shows "q = p"
proof -
  have "backed cd cfg (obj (store st)) st q" and si: "stage_inv cd cfg body_of st p (Writing nl et)"
    using assms(1,3) unfolding linv_def by metis+
  then obtain b e where b: "obj (store st) = Some (b, e)" "own_lease cd cfg b q (ExpiresAt le)"
    using assms(5,6) by (auto simp: backed_def)
  then have b': "b = body_of et" "et \<noteq> ''''" using assms(4) by auto
  have "\<not> old_lease cd b (clock st)" using b(2) assms(6) by (auto simp: own_lease_def old_lease_def IsExpired_def)
  then obtain le' where "json_Unmarshal cd b = Inr le'" "Owner le' = ls_Owner (cfg p)" using si b' by auto
  with b(2) have "(ls_Owner \<circ> cfg) q = (ls_Owner \<circ> cfg) p" by (auto simp: own_lease_def)
  then show "q = p" by (rule injD [OF assms(2)])
qed

lemma step_write:
  assumes inv: "linv cd cfg obj body_of st" and inj: "inj (ls_Owner \<circ> cfg)" and st: "stage st p = Writing nl et"
    and key: "lockKey (cfg p) = key" and wr: "s3_writeLease cd api (cfg p) (store st) nl et = (r, s')"
    and h': "h' = (case r of Inl _ \<Rightarrow> held st | Inr e \<Rightarrow> (held st)(p := Some (nl\<lparr>ETag := e\<rparr>)))"
  shows "linv cd cfg obj body_of (st\<lparr>store := s', held := h', stage := (stage st)(p := Idle)\<rparr>)"
proof -
  note eff = write_effect [OF wr key]
  have si: "stage_inv cd cfg body_of st p (Writing nl et)" using inv st unfolding linv_def by metis
  have old: "held_inv cd cfg body_of st q" "backed cd cfg (obj (store st)) st q" "stage_inv cd cfg body_of st q (stage st q)" for q
    using inv by (auto simp: linv_def)
  have other: "h' q = held st q" if "q \<noteq> p" for q using that h' by (simp split: sum.splits)
  let ?st = "st\<lparr>store := s', held := h', stage := (stage st)(p := Idle)\<rparr>"
  have "stage_inv cd cfg body_of ?st q (stage ?st q)" for q
    using old(3) [of q] other [of q] by (cases "stage st q"; cases "q = p") auto
  moreover have "held_inv cd cfg body_of ?st q" for q
  proof (cases "q = p \<and> (\<exists>e. r = Inr e)")
    case True
    then obtain b e where "r = Inr e" "obj s' = Some (b, e)" "json_Unmarshal cd b = Inr (nl\<lparr>ETag := ''''\<rparr>)" using eff by auto
    with True si h' digest [OF this(2)] show ?thesis by (simp add: held_inv_def own_lease_def)
  next
    case False
    then have "h' q = held st q" using h' by (auto split: sum.splits)
    with old(1) [of q] show ?thesis by (simp add: held_inv_def)
  qed
  moreover have "backed cd cfg (obj s') ?st q" for q
    using eff
  proof (elim disjE conjE exE)
    fix err assume "obj s' = obj (store st)" "r = Inl err"
    then show ?thesis using old(2) [of q] h' by (simp add: backed_def)
  next
    fix b e assume w: "obj (store st) = None" "et = ''''" "obj s' = Some (b, e)" "json_Unmarshal cd b = Inr (nl\<lparr>ETag := ''''\<rparr>)"
    have "q = p" if "held st q = Some le" "\<not> IsExpired (clock st) le" for le
      by (rule writer_alone [OF inv inj st _ that]) (use w in blast)
    then show ?thesis using w(3,4) si h' other [of q] by (cases "q = p") (auto simp: backed_def own_lease_def split: sum.splits)
  next
    fix b e assume w: "obj (store st) = Some (body_of et, et)" "et \<noteq> ''''" "obj s' = Some (b, e)" "json_Unmarshal cd b = Inr (nl\<lparr>ETag := ''''\<rparr>)"
    have "q = p" if "held st q = Some le" "\<not> IsExpired (clock st) le" for le
      by (rule writer_alone [OF inv inj st _ that]) (use w in blast)
    then show ?thesis using w(3,4) si h' other [of q] by (cases "q = p") (auto simp: backed_def own_lease_def split: sum.splits)
  qed
  ultimately show ?thesis by (simp add: linv_def)
qed

lemma step_release:
  assumes inv: "linv cd cfg obj body_of st" and inj: "inj (ls_Owner \<circ> cfg)" and hp: "held st p = Some le" "stage st p = Idle"
    and key: "lockKey (cfg p) = key" and rel: "s3_ReleaseLease api (cfg p) (store st) (Some le) = (r, s')"
  shows "linv cd cfg obj body_of (st\<lparr>store := s', held := (held st)(p := None)\<rparr>)"
proof -
  have old: "held_inv cd cfg body_of st q" "backed cd cfg (obj (store st)) st q" "stage_inv cd cfg body_of st q (stage st q)" for q
    using inv by (auto simp: linv_def)
  let ?st = "st\<lparr>store := s', held := (held st)(p := None)\<rparr>"
  have "stage_inv cd cfg body_of ?st q (stage ?st q)" for q
    using old(3) [of q] hp(2) by (cases "stage st q"; cases "q = p") auto
  moreover have "held_inv cd cfg body_of ?st q" for q using old(1) [of q] by (simp add: held_inv_def)
  moreover have "backed cd cfg (obj s') ?st q" for q
    using release_effect [OF rel key]
  proof (elim disjE conjE)
    assume "obj s' = obj (store st)"
    then show ?thesis using old(2) [of q] by (simp add: backed_def)
  next
    assume g: "obj s' = None" "obj (store st) = Some (body_of (ETag le), ETag le)"
    have "own_lease cd cfg (body_of (ETag le)) p (ExpiresAt le)" using old(1) [of p] hp(1) by (simp add: held_inv_def)
    moreover have "own_lease cd cfg (body_of (ETag le)) q (ExpiresAt le')" if "held st q = Some le'" "\<not> IsExpired (clock st) le'" for le'
      using old(2) [of q] that g(2) by (auto simp: backed_def)
    ultimately have "(ls_Owner \<circ> cfg) q = (ls_Owner \<circ> cfg) p" if "held st q = Some le'" "\<not> IsExpired (clock st) le'" for le'
      using that by (fastforce simp: own_lease_def)
    then have "q = p" if "held st q = Some le'" "\<not> IsExpired (clock st) le'" for le' using injD [OF inj] that by blast
    then show ?thesis by (auto simp: backed_def)
  qed
  ultimately show ?thesis by (simp add: linv_def)
qed

lemma step_linv:
  assumes "lstep cd api cfg st st'" and "linv cd cfg obj body_of st" and "inj (ls_Owner \<circ> cfg)" and "\<forall>p. lockKey (cfg p) = key"
  shows "linv cd cfg obj body_of st'"
  using assms(1)
proof cases
  case (tick t)
  then show ?thesis using linv_tick assms(2) by blast
next
  case (acquire_read p)
  then show ?thesis using read_effect [of "cfg p" "store st"] assms(4) by (auto intro!: linv_stage assms(2))
next
  case (acquire_refused p r now1 err)
  then show ?thesis by (auto intro!: linv_stage assms(2))
next
  case (acquire_decided p r now1 nl et)
  have h: "held_inv cd cfg body_of st p" "stage_inv cd cfg body_of st p (HasRead r)"
    using assms(2) acquire_decided(2) unfolding linv_def by metis+
  have "stage_inv cd cfg body_of st p (Writing nl et)"
    using h acquire_decided(3,4)
    by (auto simp: acquire_decide_def IsExpired_def held_inv_def old_lease_def split: sum.splits if_splits)
  then show ?thesis using acquire_decided(1) linv_stage assms(2) by blast
next
  case (renew p le)
  have "held_inv cd cfg body_of st p" using assms(2) by (auto simp: linv_def)
  then have "stage_inv cd cfg body_of st p (Writing (renewed (cfg p) (clock st) le) (ETag le))"
    using renew(3) by (auto simp: renewed_def held_inv_def own_lease_def)
  then show ?thesis using renew(1) linv_stage assms(2) by blast
next
  case (written p nl et e s')
  then show ?thesis using step_write [OF assms(2,3) written(2) _ written(3)] assms(4) by simp
next
  case (failed p nl et err s')
  then show ?thesis using step_write [OF assms(2,3) failed(2) _ failed(3)] assms(4) by simp
next
  case (release p le r s')
  then show ?thesis using step_release [OF assms(2,3) release(3,2) _ release(4)] assms(4) by simp
qed

lemma reach_linv:
  "lreach cd api cfg st st' \<Longrightarrow> linv cd cfg obj body_of st \<Longrightarrow> inj (ls_Owner \<circ> cfg) \<Longrightarrow> \<forall>p. lockKey (cfg p) = key \<Longrightarrow> linv cd cfg obj body_of st'"
  by (induction rule: rtranclp_induct) (auto dest: step_linv)

end

subsection \<open>A concrete codec and store\<close>

text \<open>A codec and an object store in memory that satisfy the assumptions: numbers in unary, the ETag spells the content.\<close>

definition enc_nat :: "nat \<Rightarrow> byte list" where
  "enc_nat n = replicate n 1 @ [0]"

definition dec_nat :: "byte list \<Rightarrow> nat \<times> byte list" where
  "dec_nat bs = (length (takeWhile (\<lambda>b. b = 1) bs), tl (dropWhile (\<lambda>b. b = 1) bs))"

definition enc_int :: "int \<Rightarrow> byte list" where
  "enc_int i = (if i < 0 then 1 else 0) # enc_nat (nat \<bar>i\<bar>)"

definition dec_int :: "byte list \<Rightarrow> int \<times> byte list" where
  "dec_int bs = (let (n, rest) = dec_nat (tl bs) in (if hd bs = 1 then - int n else int n, rest))"

definition str_bytes :: "string \<Rightarrow> byte list" where
  "str_bytes s = map (\<lambda>c. of_nat (of_char c)) s"

definition bytes_str :: "byte list \<Rightarrow> string" where
  "bytes_str bs = map (\<lambda>b. char_of (unat b)) bs"

lemma takeWhile_replicate_append: "x \<noteq> y \<Longrightarrow> takeWhile (\<lambda>b. b = x) (replicate n x @ y # rest) = replicate n x"
  by (induction n) auto

lemma dropWhile_replicate_append: "x \<noteq> y \<Longrightarrow> dropWhile (\<lambda>b. b = x) (replicate n x @ y # rest) = y # rest"
  by (induction n) auto

lemma dec_enc_nat [simp]: "dec_nat (enc_nat n @ rest) = (n, rest)"
  by (simp add: dec_nat_def enc_nat_def takeWhile_replicate_append dropWhile_replicate_append)

lemma dec_enc_int [simp]: "dec_int (enc_int i @ rest) = (i, rest)"
  by (simp add: dec_int_def enc_int_def)

lemma bytes_str_bytes [simp]: "bytes_str (str_bytes s) = s"
proof -
  have "of_char c mod 256 = (of_char c :: nat)" for c using of_char_of [of "of_char c :: nat"] by (metis char_of_char)
  then show ?thesis by (simp add: bytes_str_def str_bytes_def comp_def unat_of_nat)
qed

lemma str_bytes_str [simp]: "str_bytes (bytes_str bs) = bs"
proof -
  have "of_nat (of_char (char_of (unat b) :: char)) = b" for b :: byte
    using unsigned_less [of b, where 'a = nat] by (simp add: of_char_of)
  then show ?thesis by (simp add: bytes_str_def str_bytes_def comp_def)
qed

definition doc_json :: codec_json where
  "doc_json =
     \<lparr>json_Marshal = (\<lambda>l. Inr (enc_int (Generation l) @ enc_int (ExpiresAt l) @ str_bytes (Owner l))),
      json_Unmarshal = (\<lambda>b. let (g, b) = dec_int b; (x, b) = dec_int b
                            in Inr \<lparr>Generation = g, ExpiresAt = x, Owner = bytes_str b, ETag = ''''\<rparr>)\<rparr>"

definition mem_etag :: "byte list \<Rightarrow> string" where
  "mem_etag b = CHR ''h'' # bytes_str b"

definition mem_s3 :: "(byte list \<times> string) option S3API" where
  "mem_s3 =
     \<lparr>GetObject = (\<lambda>s _. case s of None \<Rightarrow> Inl (APIError ''NoSuchKey'') | Some (b, _) \<Rightarrow> Inr (b, Some (mem_etag b))),
      PutObject = (\<lambda>s _ b c. if (case c of IfNoneMatch \<Rightarrow> s = None | IfMatch e \<Rightarrow> map_option (mem_etag \<circ> fst) s = Some e)
                             then (Inr (Some (mem_etag b)), Some (b, mem_etag b)) else (Inl (APIError ''PreconditionFailed''), s)),
      DeleteObject = (\<lambda>s _ e. if s = None then (Some (APIError ''NoSuchKey''), s)
                              else if map_option (mem_etag \<circ> fst) s = Some e then (None, None) else (Some (APIError ''PreconditionFailed''), s))\<rparr>"

interpretation doc_lease_codec: lease_codec doc_json
  by unfold_locales (auto simp: doc_json_def Let_def split: prod.splits)

interpretation mem_store: s3_store doc_json mem_s3 "map_option (\<lambda>(b, _). (b, mem_etag b))" "str_bytes \<circ> tl" key for key
  by unfold_locales (auto simp: mem_s3_def mem_etag_def split: option.splits if_splits put_cond.splits)

subsection \<open>Properties\<close>

text \<open>
  C26. The S3 lease is exclusive: whatever the interleaving of the reads, writes, renewals and releases of any number of
  processes with distinct owner names, and also when responses of writes are lost, no two processes hold
  leases that have not expired.
\<close>

theorem s3_lease_mutual_exclusion:
  assumes "s3_store cd api obj body_of key" and "\<forall>p. lockKey (cfg p) = key" and "inj (ls_Owner \<circ> cfg)"
    and "\<forall>p. held st p = None \<and> stage st p = Idle" and "lreach cd api cfg st st'"
    and "valid_lease st' p" and "valid_lease st' q"
  shows "p = q"
proof -
  have "linv cd cfg obj body_of st" using assms(4) by (simp add: linv_def held_inv_def backed_def)
  then have "linv cd cfg obj body_of st'" by (rule s3_store.reach_linv [OF assms(1,5) _ assms(3,2)])
  then have b: "backed cd cfg (obj (store st')) st' x" for x by (simp add: linv_def)
  obtain lp lq where "held st' p = Some lp" "\<not> IsExpired (clock st') lp" "held st' q = Some lq" "\<not> IsExpired (clock st') lq"
    using assms(6,7) by (auto simp: valid_lease_def)
  then have "(ls_Owner \<circ> cfg) p = (ls_Owner \<circ> cfg) q" using b [of p] b [of q] by (fastforce simp: backed_def own_lease_def)
  then show ?thesis by (rule injD [OF assms(3)])
qed

definition test_leaser :: "nat \<Rightarrow> Leaser" where
  "test_leaser p = \<lparr>ls_Dir = '''', ls_Path = '''', ls_TTL = 10, ls_MaxTTL = 0, ls_Owner = replicate p CHR ''x''\<rparr>"

theorem s3_lease_mutual_exclusion_witness:
  "\<exists>st'. lreach doc_json mem_s3 test_leaser \<lparr>store = None, clock = 5, held = (\<lambda>_. None), stage = (\<lambda>_. Idle)\<rparr> st' \<and>
         valid_lease st' 0 \<and> \<not> valid_lease st' 1"
proof -
  let ?st = "\<lparr>store = None, clock = 5, held = (\<lambda>_. None), stage = (\<lambda>_. Idle)\<rparr> :: (byte list \<times> string) option lsys"
  have "case fst (s3_AcquireLease doc_json mem_s3 (test_leaser 0) 5 5 None) of Inl _ \<Rightarrow> False | Inr le \<Rightarrow> ExpiresAt le = 15" by code_simp
  then obtain le s' where le: "s3_AcquireLease doc_json mem_s3 (test_leaser 0) 5 5 None = (Inr le, s')" "ExpiresAt le = 15"
    by (cases "s3_AcquireLease doc_json mem_s3 (test_leaser 0) 5 5 None") (auto split: sum.splits)
  let ?st' = "?st\<lparr>store := s', held := (held ?st)(0 := Some le)\<rparr>"
  have run: "lreach doc_json mem_s3 test_leaser ?st ?st'" by (rule AcquireLease_steps) (simp_all add: le(1))
  have v: "valid_lease ?st' 0" using le(2) by (simp add: valid_lease_def IsExpired_def)
  have "inj (ls_Owner \<circ> test_leaser)" by (rule injI) (simp add: test_leaser_def)
  moreover have "\<forall>p. lockKey (test_leaser p) = ''lock.json''" by (simp add: lockKey_def test_leaser_def DefaultLeasePath_def)
  ultimately have "(0::nat) = 1" if "valid_lease ?st' 1"
    using s3_lease_mutual_exclusion [OF mem_store.s3_store_axioms _ _ _ run v that] by simp
  with run v show ?thesis by auto
qed

end
