(* ===== verification/FileLease.thy ===== *)
theory FileLease
  imports Lease Hex
begin

text \<open>
  The leaser on a lock file (\<^verbatim>\<open>src/file/leaser.go\<close>). The file system is the content of the lock file, if it
  exists, and an oracle for the failure of each system call. SHA-256 is the parameter \<open>sha\<close>; that two different lock
  files have different digests is the assumption of the locale \<open>file_lease\<close>.

  The locale \<open>leaser\<close> is what callers rely on with either backend when calls do not interleave; it is proved for the
  S3 leaser and for the file leaser. When calls of two processes on the lock file interleave, it does not hold:
  the comparison of the ETag and the rename are separate steps.
\<close>

subsection \<open>The lock file\<close>

datatype lock_call =
    LkRead | LkMkdir | LkCreate | LkWrite | LkClose | LkCompare | LkTemp | LkTempWrite | LkTempClose | LkRename | LkRemove

text \<open>\<open>lock_short\<close> is how many bytes a failing write leaves behind.\<close>

record lockfs =
  lock :: "byte list option"
  lock_fault :: "lock_call \<Rightarrow> goerr option"
  lock_short :: nat

definition hex_EncodeToString :: "byte list \<Rightarrow> string" where
  "hex_EncodeToString bs = concat (map (\<lambda>b. fmt_hex 2 (unat b)) bs)"

definition contentETag :: "(byte list \<Rightarrow> byte list) \<Rightarrow> byte list \<Rightarrow> string" where
  "contentETag sha data = hex_EncodeToString (sha data)"

definition lock_ReadFile :: "lock_call \<Rightarrow> lockfs \<Rightarrow> goerr + byte list" where
  "lock_ReadFile c s =
     (case lock_fault s c of
        Some e \<Rightarrow> Inl e
      | None \<Rightarrow> (case lock s of None \<Rightarrow> Inl (PathError ''open'' (Sentinel os_ErrNotExist)) | Some data \<Rightarrow> Inr data))"

definition lock_Remove :: "lockfs \<Rightarrow> goerr option \<times> lockfs" where
  "lock_Remove s =
     (case lock_fault s LkRemove of
        Some e \<Rightarrow> (Some e, s)
      | None \<Rightarrow> if lock s = None then (Some (PathError ''remove'' (Sentinel os_ErrNotExist)), s) else (None, s\<lparr>lock := None\<rparr>))"

text \<open>\<open>time.Until\<close> is the difference to the clock.\<close>

definition file_readLease ::
  "codec_json \<Rightarrow> (byte list \<Rightarrow> byte list) \<Rightarrow> Leaser \<Rightarrow> instant \<Rightarrow> lockfs \<Rightarrow> goerr + Lease \<times> string" where
  "file_readLease cd sha l now s =
     (case lock_ReadFile LkRead s of
        Inl err \<Rightarrow> Inl (if errors_Is err os_ErrNotExist then Sentinel os_ErrNotExist else err)
      | Inr data \<Rightarrow>
          (case json_Unmarshal cd data of
             Inl err \<Rightarrow> Inl (Wrapf ''decode lease'' err)
           | Inr lease \<Rightarrow>
               if ExpiresAt lease \<noteq> 0 \<and> ExpiresAt lease - now > maxTTL l
               then Inl (Wrapf ''lease'' (Sentinel ErrLeaseCorrupt))
               else let etag = contentETag sha data in Inr (lease\<lparr>ETag := etag\<rparr>, etag)))"

text \<open>The two branches of \<open>writeLease\<close>: creation with \<^verbatim>\<open>O_EXCL\<close>, and comparison followed by the rename.\<close>

definition file_create :: "(byte list \<Rightarrow> byte list) \<Rightarrow> lockfs \<Rightarrow> byte list \<Rightarrow> (goerr + string) \<times> lockfs" where
  "file_create sha s data =
     (case (case lock_fault s LkCreate of Some e \<Rightarrow> Some e
            | None \<Rightarrow> if lock s \<noteq> None then Some (PathError ''open'' (Sentinel os_ErrExist)) else None) of
        Some err \<Rightarrow> (Inl (if errors_Is err os_ErrExist then LeaseExistsError '''' 0 else Wrapf ''create lease'' err), s)
      | None \<Rightarrow>
          (case lock_fault s LkWrite of
             Some err \<Rightarrow> (Inl (Wrapf ''write lease'' err), snd (lock_Remove (s\<lparr>lock := Some (take (lock_short s) data)\<rparr>)))
           | None \<Rightarrow>
               let s = s\<lparr>lock := Some data\<rparr> in
               (case lock_fault s LkClose of
                  Some err \<Rightarrow> (Inl (Wrapf ''close lease'' err), s)
                | None \<Rightarrow> (Inr (contentETag sha data), s))))"

definition file_compare :: "(byte list \<Rightarrow> byte list) \<Rightarrow> lockfs \<Rightarrow> string \<Rightarrow> goerr option" where
  "file_compare sha s etag =
     (case lock_ReadFile LkCompare s of
        Inl err \<Rightarrow> Some (if errors_Is err os_ErrNotExist then LeaseExistsError '''' 0 else Wrapf ''read lease'' err)
      | Inr current \<Rightarrow> if contentETag sha current \<noteq> etag then Some (LeaseExistsError '''' 0) else None)"

definition file_commit :: "(byte list \<Rightarrow> byte list) \<Rightarrow> lockfs \<Rightarrow> byte list \<Rightarrow> (goerr + string) \<times> lockfs" where
  "file_commit sha s data =
     (case lock_fault s LkTemp of
        Some err \<Rightarrow> (Inl (Wrapf ''create temp'' err), s)
      | None \<Rightarrow>
          (case lock_fault s LkTempWrite of
             Some err \<Rightarrow> (Inl (Wrapf ''write temp'' err), s)
           | None \<Rightarrow>
               (case lock_fault s LkTempClose of
                  Some err \<Rightarrow> (Inl (Wrapf ''close temp'' err), s)
                | None \<Rightarrow>
                    (case lock_fault s LkRename of
                       Some err \<Rightarrow> (Inl (Wrapf ''rename lease'' err), s)
                     | None \<Rightarrow> (Inr (contentETag sha data), s\<lparr>lock := Some data\<rparr>)))))"

definition file_writeLease ::
  "codec_json \<Rightarrow> (byte list \<Rightarrow> byte list) \<Rightarrow> lockfs \<Rightarrow> Lease \<Rightarrow> string \<Rightarrow> (goerr + string) \<times> lockfs" where
  "file_writeLease cd sha s lease etag =
     (case json_Marshal cd lease of
        Inl err \<Rightarrow> (Inl (Wrapf ''encode lease'' err), s)
      | Inr data \<Rightarrow>
          (case lock_fault s LkMkdir of
             Some err \<Rightarrow> (Inl (Wrapf ''mkdir lease dir'' err), s)
           | None \<Rightarrow>
               if etag = '''' then file_create sha s data
               else case file_compare sha s etag of
                 Some err \<Rightarrow> (Inl err, s)
               | None \<Rightarrow> file_commit sha s data))"

definition file_AcquireLease ::
  "codec_json \<Rightarrow> (byte list \<Rightarrow> byte list) \<Rightarrow> Leaser \<Rightarrow> instant \<Rightarrow> instant \<Rightarrow> lockfs \<Rightarrow> (goerr + Lease) \<times> lockfs" where
  "file_AcquireLease cd sha l now1 now2 s =
     (if ls_TTL l > maxTTL l then (Inl (Wrapf ''ttl'' (Sentinel ErrTTLExceedsMax)), s)
      else case acquire_decide l now1 now2 (file_readLease cd sha l now1 s) of
        Inl err \<Rightarrow> (Inl err, s)
      | Inr (newLease, etag) \<Rightarrow>
          (case file_writeLease cd sha s newLease etag of
             (Inl err, s) \<Rightarrow> (Inl (acquire_failed err (file_readLease cd sha l now2 s)), s)
           | (Inr newETag, s) \<Rightarrow> (Inr (newLease\<lparr>ETag := newETag\<rparr>), s)))"

definition file_RenewLease ::
  "codec_json \<Rightarrow> (byte list \<Rightarrow> byte list) \<Rightarrow> Leaser \<Rightarrow> instant \<Rightarrow> lockfs \<Rightarrow> Lease option \<Rightarrow> (goerr + Lease) \<times> lockfs" where
  "file_RenewLease cd sha l now s lease =
     (case lease of
        None \<Rightarrow> (Inl (Sentinel ErrLeaseRequired), s)
      | Some lease \<Rightarrow>
          if ETag lease = '''' then (Inl (Sentinel ErrLeaseETagRequired), s)
          else if ls_TTL l > maxTTL l then (Inl (Wrapf ''ttl'' (Sentinel ErrTTLExceedsMax)), s)
          else case file_readLease cd sha l now s of
            Inl err \<Rightarrow> (Inl (if errors_Is err os_ErrNotExist then Sentinel ErrLeaseNotHeld else Wrapf ''read existing lease'' err), s)
          | Inr (existing, _) \<Rightarrow>
              if Owner existing \<noteq> ls_Owner l then (Inl (Sentinel ErrLeaseNotHeld), s)
              else let newLease = renewed l now lease in
                (case file_writeLease cd sha s newLease (ETag lease) of
                   (Inl err, s) \<Rightarrow> (Inl (if as_LeaseExists err then Sentinel ErrLeaseNotHeld else err), s)
                 | (Inr newETag, s) \<Rightarrow> (Inr (newLease\<lparr>ETag := newETag\<rparr>), s)))"

definition file_ReleaseLease ::
  "codec_json \<Rightarrow> (byte list \<Rightarrow> byte list) \<Rightarrow> Leaser \<Rightarrow> instant \<Rightarrow> lockfs \<Rightarrow> Lease option \<Rightarrow> goerr option \<times> lockfs" where
  "file_ReleaseLease cd sha l now s lease =
     (case lease of
        None \<Rightarrow> (Some (Sentinel ErrLeaseRequired), s)
      | Some lease \<Rightarrow>
          if ETag lease = '''' then (Some (Sentinel ErrLeaseETagRequired), s)
          else case file_readLease cd sha l now s of
            Inl err \<Rightarrow> (Some (if errors_Is err os_ErrNotExist then Sentinel ErrLeaseAlreadyReleased else Wrapf ''read lease'' err), s)
          | Inr (_, etag) \<Rightarrow>
              if etag \<noteq> ETag lease then (Some (Sentinel ErrLeaseNotHeld), s)
              else case lock_Remove s of
                (Some err, s) \<Rightarrow> (Some (if errors_Is err os_ErrNotExist then Sentinel ErrLeaseAlreadyReleased else Wrapf ''remove lease'' err), s)
              | (None, s) \<Rightarrow> (None, s))"

text \<open>\<open>filepath.Join\<close> of the directory and the file name, for a clean directory name.\<close>

definition DefaultLeaseFile :: string where
  "DefaultLeaseFile = ''lock.json''"

definition lockPath :: "Leaser \<Rightarrow> string" where
  "lockPath l = ls_Dir l @ ''/'' @ (if ls_Path l = '''' then DefaultLeaseFile else ls_Path l)"

subsection \<open>The contract of a leaser\<close>

text \<open>\<open>cur s\<close> is the lease in the store, with its ETag. The laws are those of calls that do not interleave.\<close>

locale leaser =
  fixes acquire :: "instant \<Rightarrow> 's \<Rightarrow> (goerr + Lease) \<times> 's"
    and renew :: "instant \<Rightarrow> 's \<Rightarrow> Lease option \<Rightarrow> (goerr + Lease) \<times> 's"
    and release :: "instant \<Rightarrow> 's \<Rightarrow> Lease option \<Rightarrow> goerr option \<times> 's"
    and cur :: "'s \<Rightarrow> Lease option" and ttl :: duration and me :: string
  assumes acquire_ok: "acquire now s = (Inr l, s') \<Longrightarrow>
      cur s' = Some l \<and> ETag l \<noteq> '''' \<and> Owner l = me \<and> ExpiresAt l = now + ttl \<and>
      (\<forall>old. cur s = Some old \<longrightarrow> IsExpired now old \<and> Generation l = int64_add (Generation old) 1)"
    and acquire_held: "cur s = Some old \<Longrightarrow> \<not> IsExpired now old \<Longrightarrow> acquire now s = (r, s') \<Longrightarrow> cur s' = cur s"
    and renew_ok: "renew now s (Some l) = (Inr l', s') \<Longrightarrow>
      cur s' = Some l' \<and> ETag l' \<noteq> '''' \<and> Owner l' = me \<and> ExpiresAt l' = now + ttl \<and> Generation l' = Generation l \<and>
      (\<forall>old. cur s = Some old \<longrightarrow> ETag old = ETag l)"
    and renew_stale: "cur s = Some old \<Longrightarrow> ETag old \<noteq> ETag l \<Longrightarrow> renew now s (Some l) = (r, s') \<Longrightarrow> cur s' = cur s"
    and release_ok: "release now s (Some l) = (None, s') \<Longrightarrow> cur s' = None \<and> (\<forall>old. cur s = Some old \<longrightarrow> ETag old = ETag l)"
    and release_stale: "cur s = Some old \<Longrightarrow> ETag old \<noteq> ETag l \<Longrightarrow> release now s (Some l) = (x, s') \<Longrightarrow> cur s' = cur s"
begin

text \<open>Another process cannot take a valid lease.\<close>

lemma valid_kept: "cur s = Some old \<Longrightarrow> \<not> IsExpired now old \<Longrightarrow> acquire now s = (r, s') \<Longrightarrow> cur s' = Some old \<and> (\<exists>e. r = Inl e)"
proof -
  assume a: "cur s = Some old" "\<not> IsExpired now old" "acquire now s = (r, s')"
  have "r \<noteq> Inr l" for l using acquire_ok [of now s l s'] a by metis
  then show "cur s' = Some old \<and> (\<exists>e. r = Inl e)" using acquire_held [OF a] a(1) by (metis sum.exhaust)
qed

text \<open>A lease that was taken over can be neither renewed nor released by its former holder.\<close>

lemma former_holder_fenced:
  assumes "cur s = Some new" and "ETag new \<noteq> ETag l"
  shows "(renew now s (Some l) = (r, s') \<longrightarrow> cur s' = Some new \<and> (\<exists>e. r = Inl e)) \<and>
         (release now s (Some l) = (x, s'') \<longrightarrow> cur s'' = Some new \<and> x \<noteq> None)"
proof (intro conjI impI)
  assume "renew now s (Some l) = (r, s')"
  moreover from this have "r \<noteq> Inr l'" for l' using renew_ok [of now s l l' s'] assms by metis
  ultimately show "cur s' = Some new" "\<exists>e. r = Inl e" using renew_stale [OF assms] assms(1) by (cases r, simp_all)+
next
  assume "release now s (Some l) = (x, s'')"
  moreover from this have "x \<noteq> None" using release_ok [of now s l s''] assms by metis
  ultimately show "cur s'' = Some new" "x \<noteq> None" using release_stale [OF assms] assms(1) by simp_all
qed

end

definition lease_at :: "codec_json \<Rightarrow> (byte list \<times> string) option \<Rightarrow> Lease option" where
  "lease_at cd ob = (case ob of None \<Rightarrow> None
     | Some (b, e) \<Rightarrow> (case json_Unmarshal cd b of Inl _ \<Rightarrow> None | Inr le \<Rightarrow> Some (le\<lparr>ETag := e\<rparr>)))"

context s3_store
begin

lemma write_cur:
  assumes "s3_writeLease cd api l s nl et = (r, s')" and "lockKey l = key"
  shows "(\<exists>err. r = Inl err) \<and> lease_at cd (obj s') = lease_at cd (obj s) \<or>
         (obj s = None \<and> et = '''' \<or> obj s = Some (body_of et, et) \<and> et \<noteq> '''') \<and>
         (\<forall>x. r = Inr x \<longrightarrow> lease_at cd (obj s') = Some (nl\<lparr>ETag := x\<rparr>))"
  using write_effect [OF assms]
proof (elim disjE)
  assume "obj s' = obj s \<and> (\<exists>err. r = Inl err)"
  then show ?thesis by simp
next
  assume a: "(obj s = None \<and> et = '''' \<or> obj s = Some (body_of et, et) \<and> et \<noteq> '''') \<and>
    (\<exists>b e. obj s' = Some (b, e) \<and> json_Unmarshal cd b = Inr (nl\<lparr>ETag := ''''\<rparr>) \<and> (\<forall>x. r = Inr x \<longrightarrow> x = e))"
  then have "\<forall>x. r = Inr x \<longrightarrow> lease_at cd (obj s') = Some (nl\<lparr>ETag := x\<rparr>)" by (elim conjE exE) (simp add: lease_at_def)
  with a show ?thesis by (intro disjI2 [OF conjI] conjunct1 [OF a])
qed

lemma write_etag: "s3_writeLease cd api l s nl et = (Inr x, s') \<Longrightarrow> lockKey l = key \<Longrightarrow> x \<noteq> ''''"
  using put_ok by (fastforce simp: s3_writeLease_def split: sum.splits prod.splits)

lemma read_cur: "s3_readLease cd api l s = Inr (old, et) \<Longrightarrow> lockKey l = key \<Longrightarrow> obj s = Some (body_of et, et) \<and> lease_at cd (obj s) = Some old \<and> ETag old = et \<and> et \<noteq> ''''"
  using get_ok [of s] digest [of s] by (fastforce simp: s3_readLease_def lease_at_def Let_def split: sum.splits)

lemma s3_leaser:
  assumes "lockKey l = key"
  shows "leaser (\<lambda>now. s3_AcquireLease cd api l now now) (s3_RenewLease cd api l) (\<lambda>_. s3_ReleaseLease api l)
           (\<lambda>s. lease_at cd (obj s)) (ls_TTL l) (ls_Owner l)"
proof (unfold_locales, goal_cases)
  case (1 now s le s')
  then obtain nl et e where d: "acquire_decide l now now (s3_readLease cd api l s) = Inr (nl, et)"
      "s3_writeLease cd api l s nl et = (Inr e, s')" "le = nl\<lparr>ETag := e\<rparr>"
    by (auto simp: s3_AcquireLease_def split: sum.splits prod.splits)
  have old: "IsExpired now old \<and> Generation nl = int64_add (Generation old) 1" if "lease_at cd (obj s) = Some old" for old
    using d(1) that write_cur [OF d(2) assms] read_cur [OF _ assms, of s]
    by (auto simp: acquire_decide_def lease_at_def split: sum.splits if_splits)
  show ?case using d(1,3) old write_cur [OF d(2) assms] write_etag [OF d(2) assms]
    by (auto simp: acquire_decide_def split: sum.splits if_splits)
next
  case (2 s old now r s')
  show ?case
  proof (cases "acquire_decide l now now (s3_readLease cd api l s)")
    case (Inl err)
    then show ?thesis using 2 by (simp add: s3_AcquireLease_def)
  next
    case (Inr w)
    then obtain nl et x where d: "acquire_decide l now now (s3_readLease cd api l s) = Inr (nl, et)" "s3_writeLease cd api l s nl et = (x, s')"
      using 2(3) by (cases w) (auto simp: s3_AcquireLease_def split: sum.splits prod.splits)
    then have "et = ''''" using 2(1,2) read_cur [OF _ assms, of s] by (auto simp: acquire_decide_def split: sum.splits if_splits)
    then show ?thesis using write_cur [OF d(2) assms] 2(1) by (auto simp: lease_at_def)
  qed
next
  case (3 now s le l' s')
  then obtain e where d: "ETag le \<noteq> ''''" "s3_writeLease cd api l s (renewed l now le) (ETag le) = (Inr e, s')" "l' = (renewed l now le)\<lparr>ETag := e\<rparr>"
    by (auto simp: s3_RenewLease_def Let_def split: sum.splits prod.splits if_splits)
  then show ?case using write_cur [OF d(2) assms] write_etag [OF d(2) assms] by (auto simp: renewed_def lease_at_def split: sum.splits)
next
  case (4 s old le now r s')
  then have "s' = s \<or> (\<exists>x. s3_writeLease cd api l s (renewed l now le) (ETag le) = (x, s'))"
    by (auto simp: s3_RenewLease_def Let_def split: sum.splits prod.splits if_splits)
  then show ?case using write_cur [OF _ assms, of s "renewed l now le" "ETag le" _ s'] 4(1,2) by (auto simp: lease_at_def split: sum.splits)
next
  case (5 now s le s')
  then have "DeleteObject api s key (ETag le) = (None, s')"
    using assms by (auto simp: s3_ReleaseLease_def split: if_splits prod.splits option.splits)
  from delete_ok [OF this] show ?case by (auto simp: lease_at_def split: sum.splits)
next
  case (6 s old le now x s')
  then show ?case using release_effect [OF 6(3) assms] by (auto simp: lease_at_def split: sum.splits)
qed

end

interpretation mem_leaser: leaser "\<lambda>now. s3_AcquireLease doc_json mem_s3 l now now" "s3_RenewLease doc_json mem_s3 l" "\<lambda>_. s3_ReleaseLease mem_s3 l"
    "\<lambda>s. lease_at doc_json (map_option (\<lambda>(b, _). (b, mem_etag b)) s)" "ls_TTL l" "ls_Owner l" for l
  by (rule mem_store.s3_leaser) simp

subsection \<open>The file leaser keeps the contract\<close>

definition lock_obj :: "(byte list \<Rightarrow> byte list) \<Rightarrow> lockfs \<Rightarrow> (byte list \<times> string) option" where
  "lock_obj sha s = map_option (\<lambda>b. (b, contentETag sha b)) (lock s)"

locale file_lease = lease_codec cd
  for cd +
  fixes sha :: "byte list \<Rightarrow> byte list"
  assumes etag_inj: "contentETag sha a = contentETag sha b \<Longrightarrow> a = b" and etag_not_empty: "contentETag sha a \<noteq> ''''"
begin

abbreviation cur_lease :: "lockfs \<Rightarrow> Lease option" where
  "cur_lease s \<equiv> lease_at cd (lock_obj sha s)"

lemma read_file_cur:
  "file_readLease cd sha l now s = Inr (old, et) \<Longrightarrow> cur_lease s = Some old \<and> ETag old = et \<and> et \<noteq> ''''"
  using etag_not_empty
  by (auto simp: file_readLease_def lock_ReadFile_def lock_obj_def lease_at_def Let_def split: option.splits sum.splits if_splits)

text \<open>A write changes the lock file only if it does not exist, or if its content has the given ETag.\<close>

lemma write_file_cur:
  assumes "file_writeLease cd sha s nl et = (r, s')"
  shows "lock s' = lock s \<and> (\<exists>e. r = Inl e) \<or>
         (if et = '''' then lock s = None else \<exists>b. lock s = Some b \<and> contentETag sha b = et) \<and>
         (\<forall>x. r = Inr x \<longrightarrow> cur_lease s' = Some (nl\<lparr>ETag := x\<rparr>) \<and> x \<noteq> '''')"
proof (cases "json_Marshal cd nl")
  case (Inl e)
  then show ?thesis using assms by (auto simp: file_writeLease_def)
next
  case (Inr data)
  have new: "cur_lease (s\<lparr>lock := Some data\<rparr>) = Some (nl\<lparr>ETag := contentETag sha data\<rparr>)"
    using unmarshal [OF Inr] by (simp add: lease_at_def lock_obj_def)
  show ?thesis
  proof (cases "et = ''''")
    case True
    then show ?thesis using assms Inr new etag_not_empty
      by (auto simp: file_writeLease_def file_create_def Let_def split: option.splits if_splits)
  next
    case False
    then have cs: "lock s' = lock s \<and> (\<exists>e. r = Inl e) \<or> file_compare sha s et = None \<and> file_commit sha s data = (r, s')"
      using assms Inr by (auto simp: file_writeLease_def split: option.splits)
    then show ?thesis using new etag_not_empty False
      by (auto simp: file_compare_def file_commit_def lock_ReadFile_def split: option.splits sum.splits if_splits)
  qed
qed

lemma remove_cur: "lock_Remove s = (r, s') \<Longrightarrow> lock s' = lock s \<and> r \<noteq> None \<or> lock s' = None \<and> r = None"
  by (auto simp: lock_Remove_def split: option.splits if_splits)

lemma cur_lock: "lock s' = lock s \<Longrightarrow> cur_lease s' = cur_lease s"
  by (simp add: lock_obj_def)

lemma cur_etag: "cur_lease s = Some old \<Longrightarrow> \<exists>b. lock s = Some b \<and> contentETag sha b = ETag old"
  by (auto simp: lease_at_def lock_obj_def split: option.splits sum.splits)

lemma file_leaser:
  "leaser (\<lambda>now. file_AcquireLease cd sha l now now) (file_RenewLease cd sha l) (file_ReleaseLease cd sha l) cur_lease (ls_TTL l) (ls_Owner l)"
proof (unfold_locales, goal_cases)
  case (1 now s le s')
  then obtain nl et e where d: "acquire_decide l now now (file_readLease cd sha l now s) = Inr (nl, et)"
      "file_writeLease cd sha s nl et = (Inr e, s')" "le = nl\<lparr>ETag := e\<rparr>"
    by (auto simp: file_AcquireLease_def split: sum.splits prod.splits if_splits)
  note w = write_file_cur [OF d(2)]
  have "IsExpired now old \<and> Generation nl = int64_add (Generation old) 1" if c: "cur_lease s = Some old" for old
  proof -
    have "et \<noteq> ''''" using cur_etag [OF c] w by auto
    then show ?thesis using d(1) c read_file_cur [of l now s] by (auto simp: acquire_decide_def split: sum.splits if_splits)
  qed
  then show ?case using d(1,3) w by (auto simp: acquire_decide_def split: sum.splits if_splits)
next
  case (2 s old now r s')
  show ?case
  proof (cases "s' = s")
    case False
    then obtain nl et x where d: "acquire_decide l now now (file_readLease cd sha l now s) = Inr (nl, et)" "file_writeLease cd sha s nl et = (x, s')"
      using 2(3) by (auto simp: file_AcquireLease_def split: sum.splits prod.splits if_splits)
    then have "et = ''''" using 2(1,2) read_file_cur [of l now s] by (auto simp: acquire_decide_def split: sum.splits if_splits)
    then have "lock s' = lock s" using write_file_cur [OF d(2)] cur_etag [OF 2(1)] by auto
    then show ?thesis by (rule cur_lock)
  qed simp
next
  case (3 now s le l' s')
  then obtain e where d: "ETag le \<noteq> ''''" "file_writeLease cd sha s (renewed l now le) (ETag le) = (Inr e, s')" "l' = (renewed l now le)\<lparr>ETag := e\<rparr>"
    by (auto simp: file_RenewLease_def Let_def split: sum.splits prod.splits if_splits)
  then show ?case using write_file_cur [OF d(2)] cur_etag [of s] by (fastforce simp: renewed_def)
next
  case (4 s old le now r s')
  show ?case
  proof (cases "s' = s")
    case False
    then obtain x where "ETag le \<noteq> ''''" "file_writeLease cd sha s (renewed l now le) (ETag le) = (x, s')"
      using 4(3) by (auto simp: file_RenewLease_def Let_def split: sum.splits prod.splits if_splits)
    with write_file_cur [OF this(2)] cur_etag [OF 4(1)] 4(2) have "lock s' = lock s" by auto
    then show ?thesis by (rule cur_lock)
  qed simp
next
  case (5 now s le s')
  then obtain old where "lock_Remove s = (None, s')" "file_readLease cd sha l now s = Inr (old, ETag le)"
    by (auto simp: file_ReleaseLease_def split: sum.splits prod.splits if_splits option.splits)
  with remove_cur [OF this(1)] read_file_cur [OF this(2)] show ?case by (auto simp: lease_at_def lock_obj_def)
next
  case (6 s old le now x s')
  show ?case
  proof (cases "s' = s")
    case False
    then obtain o2 where "file_readLease cd sha l now s = Inr (o2, ETag le)"
      using 6(3) by (auto simp: file_ReleaseLease_def split: sum.splits prod.splits if_splits option.splits)
    with read_file_cur [OF this] 6(1,2) show ?thesis by simp
  qed simp
qed

end

lemma hex_inj: "hex_EncodeToString a = hex_EncodeToString b \<Longrightarrow> a = b"
proof -
  let ?f = "\<lambda>b :: byte. fmt_hex 2 (unat b)"
  have small: "unat b < 256" for b :: byte using unsigned_less [of b, where 'a = nat] by simp
  have len: "length (?f b) = 2" for b by (rule length_fmt_hex) (use small [of b] in simp_all)
  have inj: "b = c" if "?f b = ?f c" for b c
  proof -
    have "ParseUint_hex 64 (?f x) = Some (unat x)" for x :: byte by (rule ParseUint_fmt) (use small [of x] in simp)
    with that have "unat b = unat c" by (metis option.inject)
    then show ?thesis by (simp add: unsigned_word_eqI)
  qed
  have lc: "length (concat (map ?f xs)) = 2 * length xs" for xs by (induction xs) (simp_all add: len)
  assume h: "hex_EncodeToString a = hex_EncodeToString b"
  then have "length a = length b" using lc [of a] lc [of b] by (simp add: hex_EncodeToString_def)
  then have "length (map ?f a) = length (map ?f b)" by simp
  moreover have "\<forall>(x, y)\<in>set (zip (map ?f a) (map ?f b)). length x = length y"
    using len by (fastforce elim!: in_set_zipE)
  ultimately have "map ?f a = map ?f b"
    using h concat_eq_concat_iff [of "map ?f a" "map ?f b"] by (simp add: hex_EncodeToString_def)
  moreover have "inj ?f" by (rule injI) (rule inj)
  ultimately show "a = b" by (simp add: inj_map_eq_map)
qed

interpretation doc_file_lease: file_lease doc_json "\<lambda>b. 0 # b"
proof (unfold_locales, goal_cases)
  case (1 a b)
  then show ?case using hex_inj [of "0 # a" "0 # b"] by (simp add: contentETag_def)
next
  case (2 a)
  show ?case by (simp add: contentETag_def hex_EncodeToString_def fmt_hex_def Let_def)
qed

subsection \<open>Interleaved calls on the lock file\<close>

text \<open>
  The steps of \<open>AcquireLease\<close> of several processes on one lock file, in the granularity of the file operations:
  reading, deciding, comparing the ETag, and creating the file or renaming the new one over it.
\<close>

datatype fstage = FIdle | FRead "goerr + Lease \<times> string" | FWriting Lease string | FCommit Lease "byte list"

record fsys =
  fstore :: lockfs
  fclock :: instant
  fheld :: "nat \<Rightarrow> Lease option"
  fstage :: "nat \<Rightarrow> fstage"

inductive fstep :: "codec_json \<Rightarrow> (byte list \<Rightarrow> byte list) \<Rightarrow> (nat \<Rightarrow> Leaser) \<Rightarrow> fsys \<Rightarrow> fsys \<Rightarrow> bool" for cd sha cfg where
  f_tick: "fclock st \<le> t \<Longrightarrow> fstep cd sha cfg st (st\<lparr>fclock := t\<rparr>)"
| f_read: "fstage st p = FIdle \<Longrightarrow> ls_TTL (cfg p) \<le> maxTTL (cfg p) \<Longrightarrow>
    fstep cd sha cfg st (st\<lparr>fstage := (fstage st)(p := FRead (file_readLease cd sha (cfg p) (fclock st) (fstore st)))\<rparr>)"
| f_decided: "fstage st p = FRead r \<Longrightarrow> acquire_decide (cfg p) (fclock st) (fclock st) r = Inr (nl, et) \<Longrightarrow>
    fstep cd sha cfg st (st\<lparr>fstage := (fstage st)(p := FWriting nl et)\<rparr>)"
| f_compared: "fstage st p = FWriting nl et \<Longrightarrow> et \<noteq> '''' \<Longrightarrow> json_Marshal cd nl = Inr data \<Longrightarrow> lock_fault (fstore st) LkMkdir = None \<Longrightarrow>
    file_compare sha (fstore st) et = None \<Longrightarrow> fstep cd sha cfg st (st\<lparr>fstage := (fstage st)(p := FCommit nl data)\<rparr>)"
| f_renamed: "fstage st p = FCommit nl data \<Longrightarrow> file_commit sha (fstore st) data = (Inr e, s') \<Longrightarrow>
    fstep cd sha cfg st (st\<lparr>fstore := s', fheld := (fheld st)(p := Some (nl\<lparr>ETag := e\<rparr>)), fstage := (fstage st)(p := FIdle)\<rparr>)"
| f_created: "fstage st p = FWriting nl '''' \<Longrightarrow> json_Marshal cd nl = Inr data \<Longrightarrow> lock_fault (fstore st) LkMkdir = None \<Longrightarrow>
    file_create sha (fstore st) data = (Inr e, s') \<Longrightarrow>
    fstep cd sha cfg st (st\<lparr>fstore := s', fheld := (fheld st)(p := Some (nl\<lparr>ETag := e\<rparr>)), fstage := (fstage st)(p := FIdle)\<rparr>)"

definition fvalid :: "fsys \<Rightarrow> nat \<Rightarrow> bool" where
  "fvalid st p \<longleftrightarrow> (\<exists>le. fheld st p = Some le \<and> \<not> IsExpired (fclock st) le)"

text \<open>Up to the rename, each process advances alone and leaves the lock file and the others as they are.\<close>

lemma acquire_to_commit:
  assumes "fstage st p = FIdle" and "ls_TTL (cfg p) \<le> maxTTL (cfg p)" and "lock (fstore st) = Some data0" and "lock_fault (fstore st) = (\<lambda>_. None)"
    and "json_Unmarshal cd data0 = Inr old" and "ExpiresAt old < fclock st" and "contentETag sha data0 \<noteq> ''''"
    and "\<forall>l. \<exists>b. json_Marshal cd l = Inr b"
  shows "\<exists>nl data. (fstep cd sha cfg)\<^sup>*\<^sup>* st (st\<lparr>fstage := (fstage st)(p := FCommit nl data)\<rparr>) \<and> ExpiresAt nl = fclock st + ls_TTL (cfg p)"
proof -
  let ?r = "file_readLease cd sha (cfg p) (fclock st) (fstore st)" and ?et = "contentETag sha data0"
  have "ExpiresAt old - fclock st \<le> maxTTL (cfg p)" using assms(6) by (simp add: maxTTL_def DefaultLeaseMaxTTL_def)
  then have r: "?r = Inr (old\<lparr>ETag := ?et\<rparr>, ?et)"
    using assms(3-5) by (simp add: file_readLease_def lock_ReadFile_def Let_def)
  let ?nl = "\<lparr>Generation = int64_add (Generation old) 1, ExpiresAt = fclock st + ls_TTL (cfg p), Owner = ls_Owner (cfg p), ETag = ''''\<rparr>"
  have d: "acquire_decide (cfg p) (fclock st) (fclock st) ?r = Inr (?nl, ?et)"
    using assms(6) unfolding r by (simp add: acquire_decide_def IsExpired_def)
  obtain data where data: "json_Marshal cd ?nl = Inr data" using assms(8) by blast
  let ?st = "\<lambda>x. st\<lparr>fstage := (fstage st)(p := x)\<rparr>"
  have 1: "fstep cd sha cfg st (?st (FRead ?r))" using f_read [of st p cfg cd sha] assms(1,2) by simp
  have 2: "fstep cd sha cfg (?st (FRead ?r)) (?st (FWriting ?nl ?et))"
    using f_decided [of "?st (FRead ?r)" p ?r cfg ?nl ?et cd sha] d by simp
  have 3: "fstep cd sha cfg (?st (FWriting ?nl ?et)) (?st (FCommit ?nl data))"
    using f_compared [of "?st (FWriting ?nl ?et)" p ?nl ?et cd data sha cfg] assms(3,4,7) data
    by (simp add: file_compare_def lock_ReadFile_def)
  show ?thesis using 1 2 3 by (intro exI [of _ ?nl] exI [of _ data]) (simp add: converse_rtranclp_into_rtranclp)
qed

lemma renamed_holds:
  assumes "fstage st p = FCommit nl data" and "lock_fault (fstore st) = (\<lambda>_. None)"
  shows "\<exists>e. fstep cd sha cfg st (st\<lparr>fstore := (fstore st)\<lparr>lock := Some data\<rparr>, fheld := (fheld st)(p := Some (nl\<lparr>ETag := e\<rparr>)),
           fstage := (fstage st)(p := FIdle)\<rparr>)"
  using f_renamed [OF assms(1), of sha "contentETag sha data" _ cd cfg] assms(2) by (intro exI [of _ "contentETag sha data"]) (simp add: file_commit_def)

subsection \<open>Properties of the leasers\<close>


definition test_lock :: "instant \<Rightarrow> lockfs" where
  "test_lock expires = \<lparr>lock = Some (enc_int 1 @ enc_int expires @ str_bytes ''other''), lock_fault = (\<lambda>_. None), lock_short = 0\<rparr>"

lemma test_lock_lease:
  "json_Unmarshal doc_json (enc_int 1 @ enc_int expires @ str_bytes ''other'') = Inr \<lparr>Generation = 1, ExpiresAt = expires, Owner = ''other'', ETag = ''''\<rparr>"
  by (simp add: doc_json_def)


text \<open>
  C28. The lock file does not keep two processes apart: from every state in which the lock file holds an expired lease and
  two processes are idle, the steps of their \<open>AcquireLease\<close> calls can be ordered such that both succeed and
  both hold a lease that has not expired. The comparison with the ETag and the rename are not one step.
\<close>

theorem file_lease_double_acquire:
  assumes "file_lease cd sha" and "\<forall>l. \<exists>b. json_Marshal cd l = Inr b" and "p \<noteq> q"
    and "\<forall>x. fstage st x = FIdle \<and> 0 \<le> ls_TTL (cfg x) \<and> ls_TTL (cfg x) \<le> maxTTL (cfg x)"
    and "lock (fstore st) = Some data0" and "lock_fault (fstore st) = (\<lambda>_. None)"
    and "json_Unmarshal cd data0 = Inr old" and "IsExpired (fclock st) old"
  shows "\<exists>st'. (fstep cd sha cfg)\<^sup>*\<^sup>* st st' \<and> fvalid st' p \<and> fvalid st' q"
proof -
  have tag: "contentETag sha data0 \<noteq> ''''" by (rule file_lease.etag_not_empty [OF assms(1)])
  have ex: "ExpiresAt old < fclock st" using assms(8) by (simp add: IsExpired_def)
  obtain nl data where p: "(fstep cd sha cfg)\<^sup>*\<^sup>* st (st\<lparr>fstage := (fstage st)(p := FCommit nl data)\<rparr>)" "ExpiresAt nl = fclock st + ls_TTL (cfg p)"
    using acquire_to_commit [where cd = cd and cfg = cfg and sha = sha, OF _ _ assms(5,6,7) ex tag assms(2), of p] assms(4) by blast
  define s1 where "s1 = st\<lparr>fstage := (fstage st)(p := FCommit nl data)\<rparr>"
  have s1: "fstage s1 q = FIdle" "lock (fstore s1) = Some data0" "lock_fault (fstore s1) = (\<lambda>_. None)" "ExpiresAt old < fclock s1"
    using assms(3-6) ex by (simp_all add: s1_def)
  obtain nl2 data2 where q: "(fstep cd sha cfg)\<^sup>*\<^sup>* s1 (s1\<lparr>fstage := (fstage s1)(q := FCommit nl2 data2)\<rparr>)" "ExpiresAt nl2 = fclock s1 + ls_TTL (cfg q)"
    using acquire_to_commit [where cd = cd and cfg = cfg and sha = sha, OF s1(1) _ s1(2,3) assms(7) s1(4) tag assms(2)] assms(4) by blast
  define s2 where "s2 = s1\<lparr>fstage := (fstage s1)(q := FCommit nl2 data2)\<rparr>"
  have s2: "fstage s2 p = FCommit nl data" "lock_fault (fstore s2) = (\<lambda>_. None)" using assms(3,6) by (simp_all add: s1_def s2_def)
  obtain e where r1: "fstep cd sha cfg s2 (s2\<lparr>fstore := (fstore s2)\<lparr>lock := Some data\<rparr>, fheld := (fheld s2)(p := Some (nl\<lparr>ETag := e\<rparr>)),
      fstage := (fstage s2)(p := FIdle)\<rparr>)" using renamed_holds [OF s2] by blast
  define s3 where "s3 = s2\<lparr>fstore := (fstore s2)\<lparr>lock := Some data\<rparr>, fheld := (fheld s2)(p := Some (nl\<lparr>ETag := e\<rparr>)), fstage := (fstage s2)(p := FIdle)\<rparr>"
  have s3: "fstage s3 q = FCommit nl2 data2" "lock_fault (fstore s3) = (\<lambda>_. None)" using assms(3) s2(2) by (simp_all add: s2_def s3_def)
  obtain e2 where r2: "fstep cd sha cfg s3 (s3\<lparr>fstore := (fstore s3)\<lparr>lock := Some data2\<rparr>, fheld := (fheld s3)(q := Some (nl2\<lparr>ETag := e2\<rparr>)),
      fstage := (fstage s3)(q := FIdle)\<rparr>)" (is "fstep _ _ _ _ ?s4") using renamed_holds [OF s3] by blast
  have "(fstep cd sha cfg)\<^sup>*\<^sup>* st ?s4"
    using p(1) q(1) r1 r2 unfolding s1_def [symmetric] s2_def [symmetric] s3_def [symmetric] by (meson rtranclp.rtrancl_into_rtrancl rtranclp_trans)
  moreover have "fvalid ?s4 p" "fvalid ?s4 q"
    using assms(3,4) p(2) q(2) by (simp_all add: fvalid_def IsExpired_def not_less s1_def s2_def s3_def)
  ultimately show ?thesis by blast
qed

theorem file_lease_double_acquire_witness:
  "\<exists>st'. (fstep doc_json (\<lambda>b. 0 # b) test_leaser)\<^sup>*\<^sup>* \<lparr>fstore = test_lock 3, fclock = 5, fheld = (\<lambda>_. None), fstage = (\<lambda>_. FIdle)\<rparr> st' \<and>
         fvalid st' 1 \<and> fvalid st' 2"
proof (rule file_lease_double_acquire [OF doc_file_lease.file_lease_axioms])
  show "lock (fstore \<lparr>fstore = test_lock 3, fclock = 5, fheld = (\<lambda>_. None), fstage = (\<lambda>_. FIdle)\<rparr>) = Some (enc_int 1 @ enc_int 3 @ str_bytes ''other'')"
    by (simp add: test_lock_def)
  show "json_Unmarshal doc_json (enc_int 1 @ enc_int 3 @ str_bytes ''other'') = Inr \<lparr>Generation = 1, ExpiresAt = 3, Owner = ''other'', ETag = ''''\<rparr>"
    by (rule test_lock_lease)
qed (simp_all add: test_leaser_def maxTTL_def DefaultLeaseMaxTTL_def IsExpired_def doc_json_def test_lock_def)

end
