(* ===== verification/Spec2Isabelle.thy ===== *)
theory Spec2Isabelle
  imports WalReader Restore Peer FileLease
begin

text \<open>
  Verification of the replication program of this repository.
\<close>

end
